theory Spec2Isabelle
  imports Main "HOL-Library.Char_ord" "HOL-Library.List_Lexorder" "HOL-Library.Sublist"
begin

section \<open>Text and dictionaries of the Python source\<close>

text \<open>
  A Python \<^verbatim>\<open>str\<close> is modelled as a \<^typ>\<open>string\<close>, one \<^typ>\<open>char\<close> per code point, so the
  model covers texts whose code points are below 256. \<^verbatim>\<open>str.isspace\<close> and the line
  boundaries of \<^verbatim>\<open>str.splitlines\<close> are those of Python on that range. The word characters
  of \<^verbatim>\<open>\w\<close> and the case mappings of \<^verbatim>\<open>str.capitalize\<close> are modelled on ASCII only (letters,
  digits, underscore): a character from 128 on is treated as a non-word character and is
  left as it is. Strings are ordered by code point, lexicographically, as Python orders them.
\<close>

definition isspace :: "char \<Rightarrow> bool" where
  "isspace c = (of_char c \<in> set [9, 10, 11, 12, 13, 28, 29, 30, 31, 32, 133, 160 :: nat])"

definition strip :: "string \<Rightarrow> string" where
  "strip s = rev (dropWhile isspace (rev (dropWhile isspace s)))"

definition is_linebreak :: "char \<Rightarrow> bool" where
  "is_linebreak c = (of_char c \<in> set [10, 11, 12, 13, 28, 29, 30, 133 :: nat])"

text \<open>
  \<^verbatim>\<open>str.splitlines()\<close>: the text is cut at every line boundary, a carriage return followed
  by a line feed counting as one boundary; the boundaries are not kept, and a text that
  ends in a boundary has no empty last line. The first argument is the current line,
  reversed.
\<close>

fun splitlines_from :: "string \<Rightarrow> string \<Rightarrow> string list" where
  "splitlines_from cur [] = (if cur = [] then [] else [rev cur])"
| "splitlines_from cur [c] =
     (if is_linebreak c then [rev cur] else [rev (c # cur)])"
| "splitlines_from cur (c # d # cs) =
     (if c = CHR 0x0D \<and> d = CHR 0x0A then rev cur # splitlines_from [] cs
      else if is_linebreak c then rev cur # splitlines_from [] (d # cs)
      else splitlines_from (c # cur) (d # cs))"

definition splitlines :: "string \<Rightarrow> string list" where
  "splitlines s = splitlines_from [] s"

definition is_word :: "char \<Rightarrow> bool" where
  "is_word c = (let n = (of_char c :: nat) in
     (48 \<le> n \<and> n \<le> 57) \<or> (65 \<le> n \<and> n \<le> 90) \<or> n = 95 \<or> (97 \<le> n \<and> n \<le> 122))"

definition upper :: "char \<Rightarrow> char" where
  "upper c = (let n = (of_char c :: nat) in if 97 \<le> n \<and> n \<le> 122 then char_of (n - 32) else c)"

definition lower :: "char \<Rightarrow> char" where
  "lower c = (let n = (of_char c :: nat) in if 65 \<le> n \<and> n \<le> 90 then char_of (n + 32) else c)"

text \<open>\<^verbatim>\<open>str.capitalize()\<close>: the first character in upper case, the others in lower case.\<close>

definition capitalize :: "string \<Rightarrow> string" where
  "capitalize w = (case w of [] \<Rightarrow> [] | c # cs \<Rightarrow> upper c # map lower cs)"

text \<open>
  \<^verbatim>\<open>re.sub(r'\w+', f, s)\<close> with \<^verbatim>\<open>f\<close> capitalising the match: every maximal run of word
  characters is replaced, everything else is copied. The first argument is the current
  match, reversed.
\<close>

fun sub_words :: "string \<Rightarrow> string \<Rightarrow> string" where
  "sub_words w [] = capitalize (rev w)"
| "sub_words w (c # cs) =
     (if is_word c then sub_words (c # w) cs
      else capitalize (rev w) @ c # sub_words [] cs)"

definition title_case :: "string \<Rightarrow> string" where
  "title_case s = sub_words [] s"

text \<open>\<^verbatim>\<open>'{}'.format(n)\<close> for a natural number: its decimal digits.\<close>

fun string_of_nat :: "nat \<Rightarrow> string" where
  "string_of_nat n =
     (if n < 10 then [char_of (48 + n)]
      else string_of_nat (n div 10) @ [char_of (48 + n mod 10)])"

declare string_of_nat.simps [simp del]

text \<open>
  A Python \<^verbatim>\<open>dict\<close> (and an \<^verbatim>\<open>OrderedDict\<close>) is an association list in insertion order with
  distinct keys: storing under a key that is present replaces the value where it stands,
  storing under a new key appends.
\<close>

type_synonym ('k, 'v) dict = "('k \<times> 'v) list"

definition dict_get :: "('k, 'v) dict \<Rightarrow> 'k \<Rightarrow> 'v option" where
  "dict_get d k = map_of d k"

fun dict_set :: "('k, 'v) dict \<Rightarrow> 'k \<Rightarrow> 'v \<Rightarrow> ('k, 'v) dict" where
  "dict_set [] k v = [(k, v)]"
| "dict_set ((k', v') # d) k v =
     (if k' = k then (k, v) # d else (k', v') # dict_set d k v)"

text \<open>A dict built from a sequence of key-value pairs, later pairs overwriting.\<close>

definition dict_of :: "('k \<times> 'v) list \<Rightarrow> ('k, 'v) dict" where
  "dict_of kvs = fold (\<lambda>(k, v) d. dict_set d k v) kvs []"

text \<open>\<^verbatim>\<open>d.get(k, default)\<close>.\<close>

definition dict_get_default :: "('k, 'v) dict \<Rightarrow> 'k \<Rightarrow> 'v \<Rightarrow> 'v" where
  "dict_get_default d k dflt = (case dict_get d k of None \<Rightarrow> dflt | Some v \<Rightarrow> v)"

text \<open>
  The value of \<^verbatim>\<open>row[column]\<close> under the guard \<^verbatim>\<open>if row.get(column)\<close>: the cell when it is
  there and not the empty string.
\<close>

definition truthy_get :: "(string, string) dict \<Rightarrow> string \<Rightarrow> string option" where
  "truthy_get row column =
     (case dict_get row column of None \<Rightarrow> None | Some v \<Rightarrow> if v = [] then None else Some v)"

datatype error = KeyError string | NameError string

section \<open>Module constants and the pure helpers\<close>

definition PARAMETER_COLUMNS :: "(string \<times> string) list" where
  "PARAMETER_COLUMNS =
     [(''AP marker'', ''ap-marker''),
      (''Type of AP Marker'', ''marker-type''),
      (''FunctionAP'', ''functions''),
      (''Polysemy'', ''polysemy''),
      (''Productivity of AP'', ''productivity''),
      (''Obligatoriness of P'', ''p-obligatoriness''),
      (''Definiteness P'', ''p-definiteness'')]"

definition NA_SYNONYMS :: "string set" where
  "NA_SYNONYMS = {''NI'', ''_inapplicable'', ''NA'', ''n/a''}"

type_synonym row = "(string, string) dict"

definition normalise_row :: "row \<Rightarrow> row" where
  "normalise_row row =
     dict_of [(strip k, strip v). (k, v) \<leftarrow> row, strip k \<noteq> [] \<and> strip v \<noteq> []]"

definition normalise_table :: "row list \<Rightarrow> row list" where
  "normalise_table table = filter (\<lambda>r. r \<noteq> []) (map normalise_row table)"

definition unify_na :: "string \<Rightarrow> string" where
  "unify_na v = (if v \<in> NA_SYNONYMS then ''n/a'' else v)"

section \<open>The language table\<close>

text \<open>
  The values held by a language record: text, Python's \<^verbatim>\<open>None\<close> (a languoid without
  an ISO code), or a coordinate of the catalog. The type of coordinates is left open; the
  program only passes them on. \<open>py_str\<close> is \<^verbatim>\<open>'{}'.format(v)\<close>, given the rendering of a
  coordinate.
\<close>

datatype 'c val = Str string | NoneVal | Coord 'c

definition py_str :: "('c \<Rightarrow> string) \<Rightarrow> 'c val \<Rightarrow> string" where
  "py_str fmt v = (case v of Str s \<Rightarrow> s | NoneVal \<Rightarrow> ''None'' | Coord c \<Rightarrow> fmt c)"

text \<open>
  The external catalog (Glottolog) is a parameter of the model: a partial map from an
  identifier to the attributes the program reads from a languoid. \<open>macroareas\<close> holds the
  names of the languoid's macroareas.
\<close>

record 'c languoid =
  iso :: "string option"
  name :: string
  macroareas :: "string list"
  latitude :: 'c
  longitude :: 'c

type_synonym 'c catalog = "string \<Rightarrow> 'c languoid option"

text \<open>\<^verbatim>\<open>glottolog.languoids(ids=...)\<close>: the languoids found, each with its identifier.\<close>

definition languoids :: "'c catalog \<Rightarrow> string list \<Rightarrow> (string \<times> 'c languoid) list" where
  "languoids catalog ids = List.map_filter (\<lambda>g. map_option (Pair g) (catalog g)) ids"

text \<open>\<^verbatim>\<open>d[k]\<close> on a dict with text keys: a missing key raises \<^verbatim>\<open>KeyError\<close>.\<close>

definition getitem :: "(string, 'v) dict \<Rightarrow> string \<Rightarrow> error + 'v" where
  "getitem d k = (case dict_get d k of None \<Rightarrow> Inl (KeyError k) | Some v \<Rightarrow> Inr v)"

text \<open>
  A \<^verbatim>\<open>ChainMap\<close> is the list of its dicts; a lookup returns the value of the first dict
  that has the key.
\<close>

type_synonym 'c chainmap = "(string, 'c val) dict list"

fun chain_get :: "'c chainmap \<Rightarrow> string \<Rightarrow> 'c val option" where
  "chain_get [] k = None"
| "chain_get (d # ds) k = (case dict_get d k of Some v \<Rightarrow> Some v | None \<Rightarrow> chain_get ds k)"

definition chain_getitem :: "'c chainmap \<Rightarrow> string \<Rightarrow> error + 'c val" where
  "chain_getitem m k = (case chain_get m k of None \<Rightarrow> Inl (KeyError k) | Some v \<Rightarrow> Inr v)"

text \<open>A comprehension whose element expression may raise: the first error ends it.\<close>

fun map_result :: "('a \<Rightarrow> error + 'b) \<Rightarrow> 'a list \<Rightarrow> error + 'b list" where
  "map_result f [] = Inr []"
| "map_result f (x # xs) =
     (case f x of Inl e \<Rightarrow> Inl e
      | Inr y \<Rightarrow> (case map_result f xs of Inl e \<Rightarrow> Inl e | Inr ys \<Rightarrow> Inr (y # ys)))"

text \<open>
  The \<^verbatim>\<open>ChainMap\<close> of an identifier, from its languoid and its entry in \<open>lang_info\<close>:
  the generated fields, the fields of the entry that are not empty, the fields of the
  catalog.
\<close>

definition language_chainmap :: "string \<Rightarrow> 'c languoid \<Rightarrow> row \<Rightarrow> 'c chainmap" where
  "language_chainmap glottocode node info =
     [[(''ID'', Str glottocode),
       (''Glottocode'', Str glottocode),
       (''ISO639P3code'', (case iso node of None \<Rightarrow> NoneVal | Some i \<Rightarrow> Str i))],
      dict_of [(k, Str v). (k, v) \<leftarrow> info, k \<noteq> [] \<and> v \<noteq> []],
      [(''Name'', Str (name node)),
       (''Macroarea'', Str (case macroareas node of [] \<Rightarrow> [] | m # _ \<Rightarrow> m)),
       (''Latitude'', Coord (latitude node)),
       (''Longitude'', Coord (longitude node))]]"

text \<open>
  One element of the comprehension \<open>languages\<close>: \<^verbatim>\<open>nodemap[glottocode]\<close> is evaluated
  first, \<^verbatim>\<open>lang_info[glottocode]\<close> next.
\<close>

definition language_record ::
  "(string, 'c languoid) dict \<Rightarrow> (string, row) dict \<Rightarrow> string \<Rightarrow> error + 'c chainmap" where
  "language_record nodemap lang_info glottocode =
     (case getitem nodemap glottocode of Inl e \<Rightarrow> Inl e
      | Inr node \<Rightarrow>
     (case getitem lang_info glottocode of Inl e \<Rightarrow> Inl e
      | Inr info \<Rightarrow> Inr (language_chainmap glottocode node info)))"

definition make_language_table ::
  "'c catalog \<Rightarrow> (string, row) dict \<Rightarrow> error + 'c chainmap list" where
  "make_language_table catalog lang_info =
     (case map_result (\<lambda>(_, l). getitem l ''ID'') lang_info of Inl e \<Rightarrow> Inl e
      | Inr ids \<Rightarrow>
        (let glottocodes = sort (remdups ids);
             nodemap = dict_of (languoids catalog glottocodes)
         in map_result (language_record nodemap lang_info) glottocodes))"

section \<open>The conversion\<close>

text \<open>
  The names bound in the module: by its import statements, its assignments and its
  definitions. A name that is neither bound here nor a builtin raises \<^verbatim>\<open>NameError\<close>
  when it is evaluated; the module has no \<^verbatim>\<open>import sys\<close>.
\<close>

definition module_names :: "string list" where
  "module_names =
     [''ChainMap'', ''defaultdict'', ''OrderedDict'', ''pathlib'', ''re'', ''parse_string'',
      ''cldfcatalog'', ''BaseDataset'', ''CLDFSpec'', ''Glottolog'', ''PARAMETER_COLUMNS'',
      ''NA_SYNONYMS'', ''normalise_row'', ''normalise_table'', ''title_case'',
      ''make_language_table'', ''unify_na'', ''Dataset'']"

definition global_name :: "string \<Rightarrow> error + unit" where
  "global_name n = (if n \<in> set module_names then Inr () else Inl (NameError n))"

record code =
  code_ID :: string
  code_Parameter_ID :: string
  code_Name :: string

record construction =
  con_ID :: string
  con_Name :: string
  con_Language_ID :: string
  con_Source :: "string list"

record cvalue =
  cv_ID :: string
  cv_Construction_ID :: string
  cv_Parameter_ID :: string
  cv_Value :: string
  cv_Code_ID :: "string option"

text \<open>
  \<open>source_map\<close>: from the rows (key, citation) of the citation table, the dict from the
  stripped citation to the stripped key.
\<close>

definition make_source_map :: "(string \<times> string) list \<Rightarrow> (string, string) dict" where
  "make_source_map citation_table =
     dict_of [(strip citation, strip key). (key, citation) \<leftarrow> citation_table]"

text \<open>
  \<open>lang_info\<close>: one entry per identifier, a later row replacing the entry of an earlier
  one. \<open>lang_info_entry\<close> is the dict that the comprehension builds for a row.
\<close>

definition lang_info_entry :: "string \<Rightarrow> row \<Rightarrow> row" where
  "lang_info_entry g row =
     [(''ID'', g),
      (''Name'', title_case (dict_get_default row ''Language'' [])),
      (''SubBranch'', title_case (dict_get_default row ''Sub-branch'' [])),
      (''Family'', title_case (dict_get_default row ''Family'' []))]"

fun make_lang_info :: "row list \<Rightarrow> (string, row) dict \<Rightarrow> error + (string, row) dict" where
  "make_lang_info [] lang_info = Inr lang_info"
| "make_lang_info (row # data) lang_info =
     (case getitem row ''Glottolog.Name'' of Inl e \<Rightarrow> Inl e
      | Inr g \<Rightarrow>
        make_lang_info data (dict_set lang_info g (lang_info_entry g row)))"

text \<open>The unified values of one column, over the rows where the cell is not empty.\<close>

definition observed :: "row list \<Rightarrow> string \<Rightarrow> string list" where
  "observed data column =
     List.map_filter (\<lambda>row. map_option unify_na (truthy_get row column)) data"

definition make_code_dict :: "row list \<Rightarrow> (string, string list) dict" where
  "make_code_dict data =
     fold (\<lambda>(column, param_id) code_dict.
             if param_id = ''ap-marker'' then code_dict
             else dict_set code_dict param_id (sort (remdups (observed data column))))
       PARAMETER_COLUMNS []"

text \<open>
  \<open>codes\<close>: an \<^verbatim>\<open>OrderedDict\<close> built from the items of a generator, one item for each
  value of each entry of \<open>code_dict\<close>, keyed by parameter and value.
\<close>

definition code_record :: "string \<Rightarrow> nat \<Rightarrow> string \<Rightarrow> code" where
  "code_record param_id index nm =
     \<lparr>code_ID = param_id @ ''-c'' @ string_of_nat (index + 1),
      code_Parameter_ID = param_id,
      code_Name = nm\<rparr>"

definition code_items :: "(string, string list) dict \<Rightarrow> ((string \<times> string) \<times> code) list" where
  "code_items code_dict =
     [((param_id, nm), code_record param_id index nm).
      (param_id, code_names) \<leftarrow> code_dict,
      (index, nm) \<leftarrow> enumerate 0 code_names]"

definition make_codes :: "(string, string list) dict \<Rightarrow> (string \<times> string, code) dict" where
  "make_codes code_dict = dict_of (code_items code_dict)"

text \<open>
  \<open>known_citation\<close>, with the lines it would print: the call of \<^verbatim>\<open>print\<close> evaluates
  \<^verbatim>\<open>sys.stderr\<close> after its two positional arguments.
\<close>

definition known_citation ::
  "(string, string) dict \<Rightarrow> nat \<Rightarrow> string \<Rightarrow> error + bool \<times> string list" where
  "known_citation source_map index cite =
     (if cite \<in> set (map fst source_map) then Inr (True, [])
      else (case global_name ''sys'' of Inl e \<Rightarrow> Inl e
            | Inr _ \<Rightarrow>
              Inr (False,
                [''row '' @ string_of_nat (index + 2) @ '': unknown citation: '' @ cite])))"

text \<open>The comprehension \<open>citations\<close>: the keys, and the lines printed on the way.\<close>

fun resolve_citations ::
  "(string, string) dict \<Rightarrow> nat \<Rightarrow> string list \<Rightarrow> error + string list \<times> string list" where
  "resolve_citations source_map index [] = Inr ([], [])"
| "resolve_citations source_map index (citation # rest) =
     (case known_citation source_map index citation of Inl e \<Rightarrow> Inl e
      | Inr (known, printed) \<Rightarrow>
        if known then
          (case getitem source_map (strip citation) of Inl e \<Rightarrow> Inl e
           | Inr key \<Rightarrow>
             (case resolve_citations source_map index rest of Inl e \<Rightarrow> Inl e
              | Inr (keys, later) \<Rightarrow> Inr (key # keys, printed @ later)))
        else
          (case resolve_citations source_map index rest of Inl e \<Rightarrow> Inl e
           | Inr (keys, later) \<Rightarrow> Inr (keys, printed @ later)))"

text \<open>The value records of one row, one for each parameter column that is not empty.\<close>

definition row_cvalues :: "(string \<times> string, code) dict \<Rightarrow> string \<Rightarrow> row \<Rightarrow> cvalue list" where
  "row_cvalues codes constr_id row =
     List.map_filter
       (\<lambda>(column, param_id).
          map_option
            (\<lambda>v. \<lparr>cv_ID = constr_id @ ''-'' @ param_id,
                  cv_Construction_ID = constr_id,
                  cv_Parameter_ID = param_id,
                  cv_Value = unify_na v,
                  cv_Code_ID = map_option code_ID (dict_get codes (param_id, unify_na v))\<rparr>)
            (truthy_get row column))
       PARAMETER_COLUMNS"

text \<open>The state of the loop over the rows; \<open>ords\<close> is a \<^verbatim>\<open>defaultdict(int)\<close>.\<close>

record loop_state =
  constructions :: "construction list"
  cvalues :: "cvalue list"
  ords :: "(string, nat) dict"
  stderr :: "string list"

definition process_row ::
  "('c \<Rightarrow> string) \<Rightarrow> ('c val, 'c chainmap) dict \<Rightarrow> (string \<times> string, code) dict \<Rightarrow>
   (string, string) dict \<Rightarrow> nat \<Rightarrow> row \<Rightarrow> loop_state \<Rightarrow> error + loop_state" where
  "process_row fmt languages codes source_map index row st =
     (case getitem row ''Glottolog.Name'' of Inl e \<Rightarrow> Inl e
      | Inr lang_id \<Rightarrow>
     (case dict_get languages (Str lang_id) of None \<Rightarrow> Inl (KeyError lang_id)
      | Some language \<Rightarrow>
     (case chain_getitem language ''Name'' of Inl e \<Rightarrow> Inl e
      | Inr lang_name \<Rightarrow>
        (let ords' = dict_set (ords st) lang_id (dict_get_default (ords st) lang_id 0 + 1);
             constr_ord = dict_get_default ords' lang_id 0;
             constr_id = lang_id @ ''-ap'' @ string_of_nat constr_ord
         in (case resolve_citations source_map index
                    (splitlines (dict_get_default row ''Source'' []))
             of Inl e \<Rightarrow> Inl e
             | Inr (citations, printed) \<Rightarrow>
               Inr \<lparr>constructions = constructions st @
                      [\<lparr>con_ID = constr_id,
                        con_Name = py_str fmt lang_name @ '' Antipassive Construction '' @
                                   string_of_nat constr_ord,
                        con_Language_ID = lang_id,
                        con_Source = citations\<rparr>],
                    cvalues = cvalues st @ row_cvalues codes constr_id row,
                    ords = ords',
                    stderr = stderr st @ printed\<rparr>)))))"

fun assemble ::
  "('c \<Rightarrow> string) \<Rightarrow> ('c val, 'c chainmap) dict \<Rightarrow> (string \<times> string, code) dict \<Rightarrow>
   (string, string) dict \<Rightarrow> nat \<Rightarrow> row list \<Rightarrow> loop_state \<Rightarrow> error + loop_state" where
  "assemble fmt languages codes source_map index [] st = Inr st"
| "assemble fmt languages codes source_map index (row # data) st =
     (case process_row fmt languages codes source_map index row st of Inl e \<Rightarrow> Inl e
      | Inr st' \<Rightarrow> assemble fmt languages codes source_map (index + 1) data st')"

text \<open>
  What the writer is given, and the lines printed to the error stream. The bibliography
  and the schema declarations, which the claims do not concern, are left out.
\<close>

record 'c tables =
  LanguageTable :: "'c chainmap list"
  ParameterTable :: "row list"
  CodeTable :: "code list"
  constructions_csv :: "construction list"
  cvalues_csv :: "cvalue list"
  diagnostics :: "string list"

text \<open>The dict \<open>languages\<close>, keyed by the \<^verbatim>\<open>ID\<close> of each record.\<close>

definition languages_dict :: "'c chainmap list \<Rightarrow> error + ('c val, 'c chainmap) dict" where
  "languages_dict ls =
     (case map_result (\<lambda>l. case chain_getitem l ''ID'' of Inl e \<Rightarrow> Inl e
                             | Inr i \<Rightarrow> Inr (i, l)) ls
      of Inl e \<Rightarrow> Inl e | Inr kvs \<Rightarrow> Inr (dict_of kvs))"

text \<open>
  \<open>cmd_makecldf\<close>, from the rendering of a coordinate, the catalog, the rows of the raw
  table, the rows of the parameter table (passed on as they are) and the rows (key,
  citation) of the citation table. An exception leaves the writer without tables: the
  result is then the error.
\<close>

definition cmd_makecldf ::
  "('c \<Rightarrow> string) \<Rightarrow> 'c catalog \<Rightarrow> row list \<Rightarrow> row list \<Rightarrow> (string \<times> string) list \<Rightarrow>
   error + 'c tables" where
  "cmd_makecldf fmt catalog raw parameters citation_table =
     (let data = normalise_table raw;
          source_map = make_source_map citation_table
      in (case make_lang_info data [] of Inl e \<Rightarrow> Inl e
          | Inr lang_info \<Rightarrow>
         (case make_language_table catalog lang_info of Inl e \<Rightarrow> Inl e
          | Inr ls \<Rightarrow>
         (case languages_dict ls of Inl e \<Rightarrow> Inl e
          | Inr languages \<Rightarrow>
            (let codes = make_codes (make_code_dict data)
             in (case assemble fmt languages codes source_map 0 data
                        \<lparr>constructions = [], cvalues = [], ords = [], stderr = []\<rparr>
                 of Inl e \<Rightarrow> Inl e
                 | Inr st \<Rightarrow>
                   Inr \<lparr>LanguageTable = map snd languages,
                        ParameterTable = parameters,
                        CodeTable = map snd codes,
                        constructions_csv = constructions st,
                        cvalues_csv = cvalues st,
                        diagnostics = stderr st\<rparr>))))))"

section \<open>A small data set\<close>

text \<open>
  Two languoids and three rows, two of them of the same language, for the concrete runs
  below. Coordinates are natural numbers here, rendered in decimal.
\<close>

definition example_catalog :: "nat catalog" where
  "example_catalog = map_of
     [(''lang1'', \<lparr>iso = Some ''abc'', name = ''Lang One'', macroareas = [''Eurasia''],
                   latitude = 1, longitude = 2\<rparr>),
      (''lang2'', \<lparr>iso = None, name = ''Lang Two'', macroareas = [],
                   latitude = 3, longitude = 4\<rparr>)]"

definition example_rows :: "row list" where
  "example_rows =
     [[(''Glottolog.Name'', ''lang1''), (''Language'', ''foo ''), (''Sub-branch'', ''east''),
       (''Polysemy'', ''b''), (''AP marker'', ''-x''), (''Source'', ''X'')],
      [(''Glottolog.Name'', ''lang2''), (''Polysemy'', ''a''), (''FunctionAP'', ''NA'')],
      [(''Glottolog.Name'', ''lang1''), (''Language'', ''bar''), (''Polysemy'', ''c''),
       (''FunctionAP'', ''c'')]]"

definition example_citations :: "(string \<times> string) list" where
  "example_citations = [(''k1'', ''X''), (''k2'', ''Y'')]"

section \<open>NA unification\<close>

text \<open>
  C9: on each of the four spellings NI, _inapplicable, NA and n/a, \<open>unify_na\<close> returns the
  token n/a; every other string is returned unchanged.
\<close>

theorem unify_na_spec:
  "(\<forall>v \<in> {''NI'', ''_inapplicable'', ''NA'', ''n/a''}. unify_na v = ''n/a'') \<and>
   (\<forall>v. v \<notin> {''NI'', ''_inapplicable'', ''NA'', ''n/a''} \<longrightarrow> unify_na v = v)"
  by (simp add: unify_na_def NA_SYNONYMS_def)

theorem unify_na_spec_witness:
  "''NA'' \<in> {''NI'', ''_inapplicable'', ''NA'', ''n/a''} \<and> unify_na ''NA'' = ''n/a'' \<and>
   ''yes'' \<notin> {''NI'', ''_inapplicable'', ''NA'', ''n/a''} \<and> unify_na ''yes'' = ''yes''"
  using unify_na_spec by simp

section \<open>Facts about dictionaries\<close>

lemma dict_get_dict_set:
  "dict_get (dict_set d k v) k' = (if k' = k then Some v else dict_get d k')"
  by (induction d) (auto simp: dict_get_def)

lemma set_dict_set_subset: "set (dict_set d k v) \<subseteq> insert (k, v) (set d)"
  by (induction d) (auto split: if_splits)

lemma keys_dict_set: "fst ` set (dict_set d k v) = insert k (fst ` set d)"
proof (induction d)
  case Nil
  then show ?case by simp
next
  case (Cons p d)
  then show ?case by (cases p) (simp add: insert_commute)
qed

lemma distinct_dict_set:
  "distinct (map fst d) \<Longrightarrow> distinct (map fst (dict_set d k v))"
  by (induction d) (auto simp: keys_dict_set)

lemma dict_set_new: "k \<notin> fst ` set d \<Longrightarrow> dict_set d k v = d @ [(k, v)]"
  by (induction d) auto

lemma dict_set_not_Nil: "dict_set d k v \<noteq> []"
  by (cases d) (auto split: if_splits)

lemma fold_store_get:
  "dict_get (fold (\<lambda>(k, v) d. dict_set d k v) kvs d) k =
     (case map_of (rev kvs) k of Some v \<Rightarrow> Some v | None \<Rightarrow> dict_get d k)"
proof (induction kvs arbitrary: d)
  case Nil
  then show ?case by simp
next
  case (Cons kv kvs)
  obtain k' v' where kv: "kv = (k', v')" by (cases kv)
  show ?case
    by (simp add: kv Cons.IH dict_get_dict_set map_add_def split: option.splits)
qed

lemma dict_get_dict_of: "dict_get (dict_of kvs) k = map_of (rev kvs) k"
  using fold_store_get [of kvs "[]" k]
  by (simp add: dict_of_def dict_get_def split: option.splits)

lemma fold_store_subset:
  "set (fold (\<lambda>(k, v) d. dict_set d k v) kvs d) \<subseteq> set kvs \<union> set d"
proof (induction kvs arbitrary: d)
  case Nil
  then show ?case by simp
next
  case (Cons kv kvs)
  obtain k' v' where kv: "kv = (k', v')" by (cases kv)
  from Cons.IH [of "dict_set d k' v'"] set_dict_set_subset [of d k' v']
  show ?case by (auto simp: kv)
qed

lemma set_dict_of_subset: "set (dict_of kvs) \<subseteq> set kvs"
  using fold_store_subset [of kvs "[]"] by (simp add: dict_of_def)

lemma fold_store_keys:
  "fst ` set (fold (\<lambda>(k, v) d. dict_set d k v) kvs d) = fst ` set kvs \<union> fst ` set d"
proof (induction kvs arbitrary: d)
  case Nil
  then show ?case by simp
next
  case (Cons kv kvs)
  obtain k' v' where kv: "kv = (k', v')" by (cases kv)
  show ?case by (auto simp: kv Cons.IH keys_dict_set)
qed

lemma keys_dict_of: "fst ` set (dict_of kvs) = fst ` set kvs"
  by (simp add: dict_of_def fold_store_keys)

lemma fold_store_distinct:
  "distinct (map fst d) \<Longrightarrow> distinct (map fst (fold (\<lambda>(k, v) d. dict_set d k v) kvs d))"
proof (induction kvs arbitrary: d)
  case Nil
  then show ?case by simp
next
  case (Cons kv kvs)
  obtain k' v' where kv: "kv = (k', v')" by (cases kv)
  show ?case by (simp add: kv Cons.IH Cons.prems distinct_dict_set)
qed

lemma distinct_dict_of: "distinct (map fst (dict_of kvs))"
  by (simp add: dict_of_def fold_store_distinct)

lemma fold_store_new:
  "distinct (map fst kvs) \<Longrightarrow> fst ` set kvs \<inter> fst ` set d = {} \<Longrightarrow>
   fold (\<lambda>(k, v) d. dict_set d k v) kvs d = d @ kvs"
proof (induction kvs arbitrary: d)
  case Nil
  then show ?case by simp
next
  case (Cons kv kvs)
  obtain k' v' where kv: "kv = (k', v')" by (cases kv)
  from Cons.prems have new: "k' \<notin> fst ` set d" by (auto simp: kv)
  from Cons.prems have "fst ` set kvs \<inter> fst ` set (d @ [(k', v')]) = {}"
    by (auto simp: kv)
  with Cons.IH [of "d @ [(k', v')]"] Cons.prems show ?case
    by (simp add: kv dict_set_new [OF new])
qed

lemma dict_of_distinct: "distinct (map fst kvs) \<Longrightarrow> dict_of kvs = kvs"
  using fold_store_new [of kvs "[]"] by (simp add: dict_of_def)

section \<open>The row normaliser\<close>

lemma last_dropWhile: "dropWhile P xs \<noteq> [] \<Longrightarrow> last (dropWhile P xs) = last xs"
  by (induction xs) (auto split: if_splits)

lemma strip_ends:
  assumes "strip s \<noteq> []"
  shows "\<not> isspace (hd (strip s)) \<and> \<not> isspace (last (strip s))"
proof -
  let ?t = "dropWhile isspace s"
  let ?u = "dropWhile isspace (rev ?t)"
  from assms have u: "?u \<noteq> []" by (simp add: strip_def)
  have "?t = [] \<Longrightarrow> ?u = []" by (simp only: rev.simps dropWhile.simps)
  with u have t: "?t \<noteq> []" by blast
  have "last (strip s) = hd ?u" using u by (simp add: strip_def last_rev)
  moreover have "\<not> isspace (hd ?u)" using u by (rule hd_dropWhile)
  moreover have "hd (strip s) = last ?u" using u by (simp add: strip_def hd_rev)
  moreover have "last ?u = last (rev ?t)" using u by (rule last_dropWhile)
  moreover have "last (rev ?t) = hd ?t" using t by (simp add: last_rev)
  moreover have "\<not> isspace (hd ?t)" using t by (rule hd_dropWhile)
  ultimately show ?thesis by simp
qed

lemma dropWhile_hd_id: "xs = [] \<or> \<not> P (hd xs) \<Longrightarrow> dropWhile P xs = xs"
  by (cases xs) auto

lemma strip_idem: "strip (strip s) = strip s"
proof (cases "strip s = []")
  case True
  have "strip [] = []" by (simp add: strip_def)
  then show ?thesis by (simp only: True)
next
  case False
  from strip_ends [OF False] have a: "dropWhile isspace (strip s) = strip s"
    by (simp add: dropWhile_hd_id)
  from strip_ends [OF False] False have b: "dropWhile isspace (rev (strip s)) = rev (strip s)"
    by (intro dropWhile_hd_id) (simp add: hd_rev)
  have "strip (strip s) = rev (dropWhile isspace (rev (dropWhile isspace (strip s))))"
    by (rule strip_def)
  also have "\<dots> = strip s" by (simp only: a b rev_rev_ident)
  finally show ?thesis .
qed

lemma normalise_row_entries:
  assumes "(k, v) \<in> set (normalise_row r)"
  shows "\<exists>(k0, v0) \<in> set r. k = strip k0 \<and> v = strip v0 \<and> k \<noteq> [] \<and> v \<noteq> []"
proof -
  from assms set_dict_of_subset
  have "(k, v) \<in> set [(strip k, strip v). (k, v) \<leftarrow> r, strip k \<noteq> [] \<and> strip v \<noteq> []]"
    unfolding normalise_row_def by blast
  then show ?thesis by auto
qed

lemma normalise_row_get:
  "dict_get (normalise_row r) k =
     map_of (rev [(strip k0, strip v0). (k0, v0) \<leftarrow> r, strip k0 \<noteq> [] \<and> strip v0 \<noteq> []]) k"
  by (simp add: normalise_row_def dict_get_dict_of)

lemma normalise_table_rows:
  "r \<in> set (normalise_table t) \<longleftrightarrow> r \<noteq> [] \<and> (\<exists>r0 \<in> set t. r = normalise_row r0)"
  by (auto simp: normalise_table_def)

lemma normalise_row_clean:
  assumes "(k, v) \<in> set (normalise_row r)"
  shows "k \<noteq> [] \<and> v \<noteq> [] \<and> strip k = k \<and> strip v = v \<and>
         \<not> isspace (hd k) \<and> \<not> isspace (last k) \<and> \<not> isspace (hd v) \<and> \<not> isspace (last v)"
proof -
  from normalise_row_entries [OF assms] obtain k0 v0 where
    kv: "k = strip k0" "v = strip v0" "k \<noteq> []" "v \<noteq> []" by auto
  from kv strip_ends [of k0] strip_ends [of v0] show ?thesis
    by (simp add: strip_idem)
qed

text \<open>
  C8: in every row that \<open>normalise_table\<close> returns, every key and every value is stripped
  (stripping it again changes nothing, and neither its first nor its last character is
  white space) and is not empty; the entries of a normalised row are the stripped entries of
  the raw row whose key and value are not empty after stripping, a later entry replacing an
  earlier one with the same stripped key; no returned row is empty; the rows returned are
  the normalised rows that are not empty, in the order of the input. The normaliser is a
  total function of its argument: it has no error result.
\<close>

theorem normalise_table_spec:
  "(\<forall>r \<in> set (normalise_table t). r \<noteq> [] \<and> distinct (map fst r) \<and>
      (\<forall>(k, v) \<in> set r. k \<noteq> [] \<and> v \<noteq> [] \<and> strip k = k \<and> strip v = v \<and>
          \<not> isspace (hd k) \<and> \<not> isspace (last k) \<and>
          \<not> isspace (hd v) \<and> \<not> isspace (last v))) \<and>
   (\<forall>r0 \<in> set t. \<forall>k. dict_get (normalise_row r0) k =
      map_of (rev [(strip k0, strip v0). (k0, v0) \<leftarrow> r0, strip k0 \<noteq> [] \<and> strip v0 \<noteq> []]) k) \<and>
   normalise_table t = filter (\<lambda>r. r \<noteq> []) (map normalise_row t) \<and>
   subseq (normalise_table t) (map normalise_row t)"
proof -
  have rows: "r \<noteq> [] \<and> distinct (map fst r) \<and>
      (\<forall>(k, v) \<in> set r. k \<noteq> [] \<and> v \<noteq> [] \<and> strip k = k \<and> strip v = v \<and>
          \<not> isspace (hd k) \<and> \<not> isspace (last k) \<and>
          \<not> isspace (hd v) \<and> \<not> isspace (last v))"
    if "r \<in> set (normalise_table t)" for r
  proof -
    from that obtain r0 where r: "r \<noteq> []" "r = normalise_row r0"
      by (auto simp: normalise_table_rows)
    have "distinct (map fst r)" by (simp add: r normalise_row_def distinct_dict_of)
    moreover have "\<forall>(k, v) \<in> set r. k \<noteq> [] \<and> v \<noteq> [] \<and> strip k = k \<and> strip v = v \<and>
          \<not> isspace (hd k) \<and> \<not> isspace (last k) \<and>
          \<not> isspace (hd v) \<and> \<not> isspace (last v)"
      using normalise_row_clean [of _ _ r0] unfolding r by blast
    ultimately show ?thesis using r by blast
  qed
  have order: "normalise_table t = filter (\<lambda>r. r \<noteq> []) (map normalise_row t)"
    by (simp add: normalise_table_def)
  have "subseq (normalise_table t) (map normalise_row t)"
    unfolding order by (rule subseq_filter_left)
  with rows order normalise_row_get show ?thesis by blast
qed

theorem normalise_table_spec_witness:
  "normalise_table
     [[('' a '', '' b''), (''c'', ''  ''), (''a'', ''d e '')], [(''x'', '''')], [(''y '', ''z'')]]
     = [[(''a'', ''d e'')], [(''y'', ''z'')]] \<and>
   strip ''d e'' = ''d e'' \<and> \<not> isspace (hd ''d e'') \<and> \<not> isspace (last ''d e'') \<and>
   dict_get (normalise_row [('' a '', '' b''), (''c'', ''  ''), (''a'', ''d e '')]) ''a''
     = Some ''d e''"
proof -
  let ?t = "[[('' a '', '' b''), (''c'', ''  ''), (''a'', ''d e '')], [(''x'', '''')],
             [(''y '', ''z'')]]"
  have h: "normalise_table ?t = [[(''a'', ''d e'')], [(''y'', ''z'')]]" by code_simp
  have g: "dict_get (normalise_row [('' a '', '' b''), (''c'', ''  ''), (''a'', ''d e '')]) ''a''
     = Some ''d e''" by code_simp
  from normalise_table_spec [of ?t] h g show ?thesis by simp
qed

section \<open>The language table: facts\<close>

lemma map_result_Inr:
  "map_result f xs = Inr ys \<Longrightarrow> list_all2 (\<lambda>x y. f x = Inr y) xs ys"
  by (induction xs arbitrary: ys) (auto split: sum.splits)

lemma map_result_total:
  "(\<And>x. x \<in> set xs \<Longrightarrow> f x = Inr (g x)) \<Longrightarrow> map_result f xs = Inr (map g xs)"
  by (induction xs) auto

lemma map_result_cong:
  "(\<And>x. x \<in> set xs \<Longrightarrow> f x = g x) \<Longrightarrow> map_result f xs = map_result g xs"
proof (induction xs)
  case Nil
  then show ?case by simp
next
  case (Cons x xs)
  have a: "map_result f xs = map_result g xs" by (rule Cons.IH) (simp add: Cons.prems)
  have b: "f x = g x" by (simp add: Cons.prems)
  show ?case by (simp only: map_result.simps a b)
qed

lemma map_result_Inl:
  "map_result f xs = Inl e \<Longrightarrow> \<exists>x \<in> set xs. f x = Inl e"
  by (induction xs) (auto split: sum.splits)

lemma map_result_fail:
  "x \<in> set xs \<Longrightarrow> f x = Inl e \<Longrightarrow> \<exists>e'. map_result f xs = Inl e'"
  by (induction xs) (auto split: sum.splits)

lemma make_lang_info_Inl:
  "make_lang_info data acc = Inl e \<Longrightarrow>
   e = KeyError ''Glottolog.Name'' \<and> (\<exists>r \<in> set data. dict_get r ''Glottolog.Name'' = None)"
  by (induction data arbitrary: acc) (auto simp: getitem_def split: option.splits)

lemma make_lang_info_rows:
  "make_lang_info data acc = Inr li \<Longrightarrow> r \<in> set data \<Longrightarrow>
   dict_get r ''Glottolog.Name'' \<noteq> None"
  by (induction data arbitrary: acc) (auto simp: getitem_def split: option.splits)

lemma make_lang_info_get:
  "make_lang_info data acc = Inr li \<Longrightarrow>
   dict_get li g =
     (if \<exists>r \<in> set data. dict_get r ''Glottolog.Name'' = Some g
      then Some (lang_info_entry g
                   (last (filter (\<lambda>r. dict_get r ''Glottolog.Name'' = Some g) data)))
      else dict_get acc g)"
proof (induction data arbitrary: acc)
  case Nil
  then show ?case by simp
next
  case (Cons row data)
  from Cons.prems obtain g' where g': "dict_get row ''Glottolog.Name'' = Some g'"
    and rest: "make_lang_info data (dict_set acc g' (lang_info_entry g' row)) = Inr li"
    by (auto simp: getitem_def split: option.splits)
  show ?case
  proof (cases "\<exists>r \<in> set data. dict_get r ''Glottolog.Name'' = Some g")
    case True
    then have "filter (\<lambda>r. dict_get r ''Glottolog.Name'' = Some g) data \<noteq> []"
      by (simp add: filter_empty_conv)
    with True Cons.IH [OF rest] show ?thesis by simp
  next
    case False
    then have "filter (\<lambda>r. dict_get r ''Glottolog.Name'' = Some g) data = []"
      by (simp add: filter_empty_conv)
    with False Cons.IH [OF rest] g' show ?thesis
      by (auto simp: dict_get_dict_set)
  qed
qed

lemma make_lang_info_keys:
  "make_lang_info data acc = Inr li \<Longrightarrow>
   fst ` set li = fst ` set acc \<union> {g. \<exists>r \<in> set data. dict_get r ''Glottolog.Name'' = Some g}"
proof (induction data arbitrary: acc)
  case Nil
  then show ?case by simp
next
  case (Cons row data)
  from Cons.prems obtain g' where g': "dict_get row ''Glottolog.Name'' = Some g'"
    and rest: "make_lang_info data (dict_set acc g' (lang_info_entry g' row)) = Inr li"
    by (auto simp: getitem_def split: option.splits)
  from Cons.IH [OF rest] g' show ?case
    by (auto simp: keys_dict_set)
qed

lemma make_lang_info_ID:
  "make_lang_info data acc = Inr li \<Longrightarrow> \<forall>(k, l) \<in> set acc. dict_get l ''ID'' = Some k \<Longrightarrow>
   \<forall>(k, l) \<in> set li. dict_get l ''ID'' = Some k"
proof (induction data arbitrary: acc)
  case Nil
  then show ?case by simp
next
  case (Cons row data)
  from Cons.prems obtain g' where g': "dict_get row ''Glottolog.Name'' = Some g'"
    and rest: "make_lang_info data (dict_set acc g' (lang_info_entry g' row)) = Inr li"
    by (auto simp: getitem_def split: option.splits)
  have "\<forall>(k, l) \<in> set (dict_set acc g' (lang_info_entry g' row)). dict_get l ''ID'' = Some k"
    using Cons.prems(2) set_dict_set_subset [of acc g' "lang_info_entry g' row"]
    by (auto simp: lang_info_entry_def dict_get_def)
  with Cons.IH [OF rest] show ?case .
qed

lemma nodemap_get:
  "dict_get (dict_of (languoids catalog gs)) g = (if g \<in> set gs then catalog g else None)"
proof -
  have "map_of (List.map_filter (\<lambda>g. map_option (Pair g) (catalog g)) xs) g =
          (if g \<in> set xs then catalog g else None)" for xs
    by (induction xs) (auto simp: List.map_filter_simps split: option.splits)
  from this [of "rev gs"] show ?thesis
    by (simp add: dict_get_dict_of languoids_def List.map_filter_def rev_map rev_filter)
qed

lemma language_record_eq:
  assumes "g \<in> set gs" and "dict_get li g = Some info"
  shows "language_record (dict_of (languoids catalog gs)) li g =
     (case catalog g of None \<Rightarrow> Inl (KeyError g)
      | Some node \<Rightarrow> Inr (language_chainmap g node info))"
  using assms by (simp add: language_record_def getitem_def nodemap_get split: option.splits)

lemma make_language_table_eq:
  assumes li: "make_lang_info data [] = Inr li"
  shows "make_language_table catalog li =
     map_result (language_record (dict_of (languoids catalog (sort (remdups (map fst li))))) li)
       (sort (remdups (map fst li)))"
proof -
  from make_lang_info_ID [OF li] have "\<And>x. x \<in> set li \<Longrightarrow>
      (case x of (_, l) \<Rightarrow> getitem l ''ID'') = Inr (fst x)"
    by (auto simp: getitem_def)
  then have "map_result (\<lambda>(_, l). getitem l ''ID'') li = Inr (map fst li)"
    by (rule map_result_total)
  then show ?thesis by (simp add: make_language_table_def Let_def)
qed


lemma list_all2_fun: "list_all2 (\<lambda>x y. y = f x) xs ys \<Longrightarrow> ys = map f xs"
  by (induction xs ys rule: list_all2_induct) auto

lemma chain_get_ID [simp]: "chain_get (language_chainmap g node info) ''ID'' = Some (Str g)"
  by (simp add: language_chainmap_def dict_get_def)


text \<open>
  The language table of a run: the records of the identifiers of the rows, sorted and
  without repetition, each built from its languoid and from the last row of the identifier.
\<close>

lemma language_table_shape:
  assumes li: "make_lang_info data [] = Inr li"
      and ls: "make_language_table catalog li = Inr ls"
  defines "gs \<equiv> sort (remdups (map fst li))"
  shows "set gs = {g. \<exists>r \<in> set data. dict_get r ''Glottolog.Name'' = Some g}"
    and "\<forall>g \<in> set gs. catalog g \<noteq> None"
    and "ls = map (\<lambda>g. language_chainmap g (the (catalog g))
                   (lang_info_entry g
                      (last (filter (\<lambda>r. dict_get r ''Glottolog.Name'' = Some g) data)))) gs"
proof -
  show keys: "set gs = {g. \<exists>r \<in> set data. dict_get r ''Glottolog.Name'' = Some g}"
    using make_lang_info_keys [OF li] by (simp add: gs_def)
  let ?entry = "\<lambda>g. lang_info_entry g
                      (last (filter (\<lambda>r. dict_get r ''Glottolog.Name'' = Some g) data))"
  have entry: "dict_get li g = Some (?entry g)" if "g \<in> set gs" for g
    using that keys make_lang_info_get [OF li, of g] by auto
  from ls have all2: "list_all2
      (\<lambda>g l. language_record (dict_of (languoids catalog gs)) li g = Inr l) gs ls"
    unfolding make_language_table_eq [OF li] gs_def [symmetric] by (rule map_result_Inr)
  have step: "catalog g \<noteq> None \<and> l = language_chainmap g (the (catalog g)) (?entry g)"
    if "g \<in> set gs" "language_record (dict_of (languoids catalog gs)) li g = Inr l" for g l
    using that language_record_eq [OF that(1) entry [OF that(1)], of catalog]
    by (auto split: option.splits)
  show "\<forall>g \<in> set gs. catalog g \<noteq> None"
  proof
    fix g assume g: "g \<in> set gs"
    then obtain i where "i < length gs" "gs ! i = g" by (auto simp: in_set_conv_nth)
    with all2 have "language_record (dict_of (languoids catalog gs)) li g = Inr (ls ! i)"
      by (auto simp: list_all2_conv_all_nth)
    with step [OF g] show "catalog g \<noteq> None" by blast
  qed
  have "list_all2 (\<lambda>g l. l = language_chainmap g (the (catalog g)) (?entry g)) gs ls"
    using all2 step by (auto simp: list_all2_conv_all_nth)
  then show "ls = map (\<lambda>g. language_chainmap g (the (catalog g)) (?entry g)) gs"
    by (rule list_all2_fun)
qed

lemma languages_dict_shape:
  assumes "ls = map (\<lambda>g. language_chainmap g (node g) (entry g)) gs" and "distinct gs"
  shows "languages_dict ls = Inr (zip (map Str gs) ls)"
proof -
  have a: "map_result (\<lambda>l. case chain_getitem l ''ID'' of Inl e \<Rightarrow> Inl e | Inr i \<Rightarrow> Inr (i, l)) ls
          = Inr (map (\<lambda>g. (Str g, language_chainmap g (node g) (entry g))) gs)"
    unfolding assms(1)
    by (induction gs) (simp_all add: chain_getitem_def)
  have b: "map (\<lambda>g. (Str g, language_chainmap g (node g) (entry g))) gs
                   = zip (map Str gs) ls"
    unfolding assms(1) by (induction gs) simp_all
  have c: "distinct (map fst (zip (map Str gs) ls))"
    using assms by (simp add: distinct_map inj_on_def)
  show ?thesis
    unfolding languages_dict_def a b by (simp add: dict_of_distinct [OF c])
qed

lemma languages_lookup:
  assumes "g \<in> set gs"
  shows "dict_get (zip (map Str gs) (map f gs)) (Str g) = Some (f g)"
  using assms by (induction gs) (auto simp: dict_get_def)


lemma cmd_makecldf_Inr:
  assumes "cmd_makecldf fmt catalog raw parameters citation_table = Inr out"
  obtains li ls languages st where
    "make_lang_info (normalise_table raw) [] = Inr li"
    "make_language_table catalog li = Inr ls"
    "languages_dict ls = Inr languages"
    "assemble fmt languages (make_codes (make_code_dict (normalise_table raw)))
       (make_source_map citation_table) 0 (normalise_table raw)
       \<lparr>constructions = [], cvalues = [], ords = [], stderr = []\<rparr> = Inr st"
    "out = \<lparr>LanguageTable = map snd languages, ParameterTable = parameters,
            CodeTable = map snd (make_codes (make_code_dict (normalise_table raw))),
            constructions_csv = constructions st, cvalues_csv = cvalues st,
            diagnostics = stderr st\<rparr>"
  using assms by (auto simp: cmd_makecldf_def Let_def split: sum.splits)

text \<open>What a run that returns tables has built for the languages.\<close>

lemma run_languages:
  assumes run: "cmd_makecldf fmt catalog raw parameters citation_table = Inr out"
  obtains gs st where
    "distinct gs" "sorted gs"
    "set gs = {g. \<exists>r \<in> set (normalise_table raw). dict_get r ''Glottolog.Name'' = Some g}"
    "\<forall>g \<in> set gs. catalog g \<noteq> None"
    "LanguageTable out =
       map (\<lambda>g. language_chainmap g (the (catalog g))
                  (lang_info_entry g
                    (last (filter (\<lambda>r. dict_get r ''Glottolog.Name'' = Some g)
                       (normalise_table raw))))) gs"
    "assemble fmt (zip (map Str gs) (LanguageTable out))
       (make_codes (make_code_dict (normalise_table raw)))
       (make_source_map citation_table) 0 (normalise_table raw)
       \<lparr>constructions = [], cvalues = [], ords = [], stderr = []\<rparr> = Inr st"
    "CodeTable out = map snd (make_codes (make_code_dict (normalise_table raw)))"
    "constructions_csv out = constructions st"
    "cvalues_csv out = cvalues st"
proof -
  from run obtain li ls languages st where
    li: "make_lang_info (normalise_table raw) [] = Inr li" and
    ls: "make_language_table catalog li = Inr ls" and
    la: "languages_dict ls = Inr languages" and
    st: "assemble fmt languages (make_codes (make_code_dict (normalise_table raw)))
       (make_source_map citation_table) 0 (normalise_table raw)
       \<lparr>constructions = [], cvalues = [], ords = [], stderr = []\<rparr> = Inr st" and
    out: "out = \<lparr>LanguageTable = map snd languages, ParameterTable = parameters,
            CodeTable = map snd (make_codes (make_code_dict (normalise_table raw))),
            constructions_csv = constructions st, cvalues_csv = cvalues st,
            diagnostics = stderr st\<rparr>"
    by (rule cmd_makecldf_Inr)
  let ?gs = "sort (remdups (map fst li))"
  note shape = language_table_shape [OF li ls]
  have d: "distinct ?gs" by simp
  from languages_dict_shape [OF shape(3) d] la
  have languages: "languages = zip (map Str ?gs) ls" by simp
  have len: "length ls = length ?gs" by (subst shape(3)) simp
  have tab: "LanguageTable out = ls" by (simp add: out languages len)
  show thesis
  proof (rule that [of ?gs st])
    show "distinct ?gs" by (rule d)
    show "sorted ?gs" by simp
    show "set ?gs = {g. \<exists>r \<in> set (normalise_table raw). dict_get r ''Glottolog.Name'' = Some g}"
      by (rule shape(1))
    show "\<forall>g \<in> set ?gs. catalog g \<noteq> None" by (rule shape(2))
    show "LanguageTable out =
       map (\<lambda>g. language_chainmap g (the (catalog g))
                  (lang_info_entry g
                    (last (filter (\<lambda>r. dict_get r ''Glottolog.Name'' = Some g)
                       (normalise_table raw))))) ?gs"
      unfolding tab by (rule shape(3))
    show "assemble fmt (zip (map Str ?gs) (LanguageTable out))
       (make_codes (make_code_dict (normalise_table raw)))
       (make_source_map citation_table) 0 (normalise_table raw)
       \<lparr>constructions = [], cvalues = [], ords = [], stderr = []\<rparr> = Inr st"
      using st by (simp add: tab languages)
  qed (simp_all add: out)
qed



section \<open>A missing catalog entry\<close>

text \<open>
  C7: when an identifier of a normalised row has no entry in the catalog, the run ends
  with a \<^verbatim>\<open>KeyError\<close> and returns no tables; the key is the identifier column (a row
  without an identifier) or an identifier that the catalog does not have.
\<close>

theorem missing_catalog_entry_is_fatal:
  assumes "row \<in> set (normalise_table raw)"
      and "dict_get row ''Glottolog.Name'' = Some g"
      and "catalog g = None"
  shows "\<exists>k. cmd_makecldf fmt catalog raw parameters citation_table = Inl (KeyError k) \<and>
             (k = ''Glottolog.Name'' \<or> catalog k = None)"
proof (cases "make_lang_info (normalise_table raw) []")
  case (Inl e)
  with make_lang_info_Inl [OF Inl] show ?thesis
    by (simp add: cmd_makecldf_def)
next
  case (Inr li)
  let ?gs = "sort (remdups (map fst li))"
  let ?f = "language_record (dict_of (languoids catalog ?gs)) li"
  have keys: "set ?gs = {g. \<exists>r \<in> set (normalise_table raw). dict_get r ''Glottolog.Name'' = Some g}"
    using make_lang_info_keys [OF Inr] by simp
  have rec: "?f x = (case catalog x of None \<Rightarrow> Inl (KeyError x)
      | Some node \<Rightarrow> Inr (language_chainmap x node
          (lang_info_entry x (last (filter (\<lambda>r. dict_get r ''Glottolog.Name'' = Some x)
              (normalise_table raw))))))"
    if "x \<in> set ?gs" for x
  proof -
    from that keys make_lang_info_get [OF Inr, of x]
    have "dict_get li x = Some (lang_info_entry x
        (last (filter (\<lambda>r. dict_get r ''Glottolog.Name'' = Some x) (normalise_table raw))))"
      by auto
    from language_record_eq [OF that this] show ?thesis .
  qed
  from assms keys have g: "g \<in> set ?gs" by blast
  with rec [OF g] assms(3) have "?f g = Inl (KeyError g)" by simp
  from map_result_fail [where f = ?f, OF g this] obtain e where e: "map_result ?f ?gs = Inl e" ..
  from map_result_Inl [OF e] obtain x where x: "x \<in> set ?gs" "?f x = Inl e" ..
  with rec [OF x(1)] have "e = KeyError x \<and> catalog x = None"
    by (auto split: option.splits)
  with e Inr show ?thesis
    by (simp add: cmd_makecldf_def make_language_table_eq [OF Inr])
qed

theorem missing_catalog_entry_is_fatal_witness:
  "[(''Glottolog.Name'', ''lang3''), (''Language'', ''foo'')]
     \<in> set (normalise_table [[(''Glottolog.Name'', ''lang3 ''), (''Language'', ''foo'')]]) \<and>
   dict_get [(''Glottolog.Name'', ''lang3''), (''Language'', ''foo'')] ''Glottolog.Name''
     = Some ''lang3'' \<and>
   example_catalog ''lang3'' = None \<and>
   (\<exists>k. cmd_makecldf string_of_nat example_catalog
          [[(''Glottolog.Name'', ''lang3 ''), (''Language'', ''foo'')]] [] example_citations
          = Inl (KeyError k) \<and>
        (k = ''Glottolog.Name'' \<or> example_catalog k = None)) \<and>
   cmd_makecldf string_of_nat example_catalog
     [[(''Glottolog.Name'', ''lang3 ''), (''Language'', ''foo'')]] [] example_citations
     = Inl (KeyError ''lang3'')"
proof -
  have a: "[(''Glottolog.Name'', ''lang3''), (''Language'', ''foo'')]
     \<in> set (normalise_table [[(''Glottolog.Name'', ''lang3 ''), (''Language'', ''foo'')]])"
    by code_simp
  have b: "dict_get [(''Glottolog.Name'', ''lang3''), (''Language'', ''foo'')] ''Glottolog.Name''
     = Some ''lang3''" by code_simp
  have c: "example_catalog ''lang3'' = None" by code_simp
  have d: "cmd_makecldf string_of_nat example_catalog
     [[(''Glottolog.Name'', ''lang3 ''), (''Language'', ''foo'')]] [] example_citations
       = Inl (KeyError ''lang3'')" by code_simp
  note missing_catalog_entry_is_fatal [where catalog = example_catalog and fmt = string_of_nat
      and parameters = "[]" and citation_table = example_citations, OF a b c]
  with a b c d show ?thesis by (intro conjI)
qed

section \<open>The records of the language table\<close>






section \<open>Citations\<close>

text \<open>
  C1 on the code: a citation line that is not in the citation table ends the run with a
  \<^verbatim>\<open>NameError\<close>, since \<open>known_citation\<close> evaluates \<^verbatim>\<open>sys.stderr\<close> in a module that
  does not import \<^verbatim>\<open>sys\<close>; nothing is reported and no tables are returned.
\<close>

theorem unknown_citation_aborts:
  "dict_get (make_source_map example_citations) ''X'' = Some ''k1'' \<and>
   dict_get (make_source_map example_citations) ''Z'' = None \<and>
   splitlines ''X\<newline>Z'' = [''X'', ''Z''] \<and>
   known_citation (make_source_map example_citations) 0 ''Z'' = Inl (NameError ''sys'') \<and>
   cmd_makecldf string_of_nat example_catalog
     [[(''Glottolog.Name'', ''lang1''), (''Source'', ''X\<newline>Z'')]] [] example_citations
     = Inl (NameError ''sys'')"
  by code_simp

text \<open>
  C3 on the code: \<open>known_citation\<close> is given the line as it is, and only the lookup that
  follows strips it; a line with white space after the citation is not a key of the
  table, though its stripped form is, and it is not resolved.
\<close>

theorem padded_citation_not_resolved:
  "splitlines ''X \<newline>Y'' = [''X '', ''Y''] \<and>
   strip ''X '' = ''X'' \<and>
   dict_get (make_source_map example_citations) (strip ''X '') = Some ''k1'' \<and>
   dict_get (make_source_map example_citations) ''X '' = None \<and>
   known_citation (make_source_map example_citations) 0 ''X '' = Inl (NameError ''sys'') \<and>
   cmd_makecldf string_of_nat example_catalog
     [[(''Glottolog.Name'', ''lang1''), (''Source'', ''X \<newline>Y'')]] [] example_citations
     = Inl (NameError ''sys'') \<and>
   cmd_makecldf string_of_nat example_catalog
     [[(''Glottolog.Name'', ''lang1''), (''Source'', ''X\<newline>Y'')]] [] example_citations
     = Inr \<lparr>LanguageTable =
          [[[(''ID'', Str ''lang1''), (''Glottocode'', Str ''lang1''),
             (''ISO639P3code'', Str ''abc'')],
            [(''ID'', Str ''lang1'')],
            [(''Name'', Str ''Lang One''), (''Macroarea'', Str ''Eurasia''),
             (''Latitude'', Coord 1), (''Longitude'', Coord 2)]]],
        ParameterTable = [], CodeTable = [],
        constructions_csv =
          [\<lparr>con_ID = ''lang1-ap1'', con_Name = ''Lang One Antipassive Construction 1'',
            con_Language_ID = ''lang1'', con_Source = [''k1'', ''k2'']\<rparr>],
        cvalues_csv = [], diagnostics = []\<rparr>"
  by code_simp

section \<open>The code vocabulary\<close>

lemma in_set_map_filter:
  "y \<in> set (List.map_filter f xs) \<longleftrightarrow> (\<exists>x \<in> set xs. f x = Some y)"
  by (induction xs) (auto simp: List.map_filter_simps split: option.splits)

lemma truthy_get_Some:
  "truthy_get row column = Some v \<longleftrightarrow> dict_get row column = Some v \<and> v \<noteq> []"
  by (auto simp: truthy_get_def split: option.splits)

lemma set_observed:
  "set (observed data column) =
     {unify_na v | row v. row \<in> set data \<and> dict_get row column = Some v \<and> v \<noteq> []}"
proof -
  have "y \<in> set (observed data column) \<longleftrightarrow>
      (\<exists>row v. row \<in> set data \<and> dict_get row column = Some v \<and> v \<noteq> [] \<and> y = unify_na v)" for y
    unfolding observed_def in_set_map_filter
    by (auto simp: truthy_get_Some)
  then show ?thesis by blast
qed

lemma make_code_dict_eq:
  "make_code_dict data =
     [(''marker-type'', sort (remdups (observed data ''Type of AP Marker''))),
      (''functions'', sort (remdups (observed data ''FunctionAP''))),
      (''polysemy'', sort (remdups (observed data ''Polysemy''))),
      (''productivity'', sort (remdups (observed data ''Productivity of AP''))),
      (''p-obligatoriness'', sort (remdups (observed data ''Obligatoriness of P''))),
      (''p-definiteness'', sort (remdups (observed data ''Definiteness P'')))]"
  by (simp add: make_code_dict_def PARAMETER_COLUMNS_def)

lemma make_code_dict_entry:
  assumes "(column, param_id) \<in> set PARAMETER_COLUMNS" "param_id \<noteq> ''ap-marker''"
  shows "(param_id, sort (remdups (observed data column))) \<in> set (make_code_dict data)"
    and "dict_get (make_code_dict data) param_id = Some (sort (remdups (observed data column)))"
  using assms by (auto simp: make_code_dict_eq PARAMETER_COLUMNS_def dict_get_def)

lemma make_code_dict_keys: "distinct (map fst (make_code_dict data))"
  by (simp add: make_code_dict_eq)

lemma make_code_dict_values: "(p, ns) \<in> set (make_code_dict data) \<Longrightarrow> distinct ns"
  by (auto simp: make_code_dict_eq)

lemma make_code_dict_params:
  "(p, ns) \<in> set (make_code_dict data) \<Longrightarrow>
   p \<noteq> ''ap-marker'' \<and> p \<in> snd ` set PARAMETER_COLUMNS"
  unfolding make_code_dict_eq PARAMETER_COLUMNS_def by (elim set_ConsD [elim_format]) auto

lemma code_items_Nil: "code_items [] = []"
  by (simp add: code_items_def)

lemma code_items_Cons:
  "code_items ((p, ns) # cd) =
     map (\<lambda>(i, n). ((p, n), code_record p i n)) (enumerate 0 ns) @ code_items cd"
  by (simp add: code_items_def case_prod_unfold)

lemma in_code_block:
  "(k, c) \<in> set (map (\<lambda>(i, n). ((p, n), code_record p i n)) (enumerate 0 ns)) \<longleftrightarrow>
     (\<exists>i < length ns. k = (p, ns ! i) \<and> c = code_record p i (ns ! i))"
proof
  assume "(k, c) \<in> set (map (\<lambda>(i, n). ((p, n), code_record p i n)) (enumerate 0 ns))"
  then obtain i n where "(i, n) \<in> set (enumerate 0 ns)" "k = (p, n)" "c = code_record p i n"
    by auto
  then show "\<exists>i < length ns. k = (p, ns ! i) \<and> c = code_record p i (ns ! i)"
    by (auto simp: in_set_enumerate_eq)
next
  assume "\<exists>i < length ns. k = (p, ns ! i) \<and> c = code_record p i (ns ! i)"
  then obtain i where i: "i < length ns" "k = (p, ns ! i)" "c = code_record p i (ns ! i)"
    by blast
  then have "(i, ns ! i) \<in> set (enumerate 0 ns)" by (simp add: in_set_enumerate_eq)
  then have "(\<lambda>(i, n). ((p, n), code_record p i n)) (i, ns ! i)
      \<in> set (map (\<lambda>(i, n). ((p, n), code_record p i n)) (enumerate 0 ns))"
    unfolding set_map by (rule imageI)
  with i show "(k, c) \<in> set (map (\<lambda>(i, n). ((p, n), code_record p i n)) (enumerate 0 ns))"
    by simp
qed

lemma in_code_items:
  "(k, c) \<in> set (code_items cd) \<longleftrightarrow>
     (\<exists>p ns i. (p, ns) \<in> set cd \<and> i < length ns \<and> k = (p, ns ! i) \<and>
        c = code_record p i (ns ! i))"
proof (induction cd)
  case Nil
  then show ?case by (simp add: code_items_Nil)
next
  case (Cons a cd)
  obtain p ns where a: "a = (p, ns)" by (cases a)
  show ?case
    unfolding a code_items_Cons set_append Un_iff in_code_block Cons.IH
    by auto
qed

lemma code_block_keys:
  "map fst (map (\<lambda>(i, n). ((p, n), code_record p i n)) (enumerate 0 ns)) = map (Pair p) ns"
  by (rule nth_equalityI) (simp_all add: nth_enumerate_eq)

lemma distinct_code_items:
  assumes "distinct (map fst cd)" "\<And>p ns. (p, ns) \<in> set cd \<Longrightarrow> distinct ns"
  shows "distinct (map fst (code_items cd))"
  using assms
proof (induction cd)
  case Nil
  then show ?case by (simp add: code_items_Nil)
next
  case (Cons a cd)
  obtain p ns where a: "a = (p, ns)" by (cases a)
  have "distinct ns" using Cons.prems(2) [of p ns] by (simp add: a)
  then have d1: "distinct (map (Pair p) ns)" by (simp add: distinct_map inj_on_def)
  have d2: "distinct (map fst (code_items cd))"
    using Cons.prems by (intro Cons.IH) (auto simp: a)
  have "p \<notin> fst ` set cd" using Cons.prems(1) by (simp add: a)
  then have d3: "set (map (Pair p) ns) \<inter> set (map fst (code_items cd)) = {}"
    by (force simp: in_code_items)
  show ?case
    unfolding a code_items_Cons map_append code_block_keys distinct_append
    using d1 d2 d3 by blast
qed

lemma codes_eq: "make_codes (make_code_dict data) = code_items (make_code_dict data)"
proof -
  have "distinct (map fst (code_items (make_code_dict data)))"
    by (rule distinct_code_items) (rule make_code_dict_keys, erule make_code_dict_values)
  then show ?thesis by (simp add: make_codes_def dict_of_distinct)
qed

lemma codes_get_iff:
  "dict_get (make_codes (make_code_dict data)) k = Some c \<longleftrightarrow>
     (k, c) \<in> set (code_items (make_code_dict data))"
proof -
  have "distinct (map fst (code_items (make_code_dict data)))"
    by (rule distinct_code_items) (rule make_code_dict_keys, erule make_code_dict_values)
  then show ?thesis by (simp add: codes_eq dict_get_def)
qed

text \<open>The code of a value that was observed for a parameter with codes.\<close>

lemma codes_get_observed:
  assumes "(column, param_id) \<in> set PARAMETER_COLUMNS" "param_id \<noteq> ''ap-marker''"
      and "i < length (sort (remdups (observed data column)))"
  shows "dict_get (make_codes (make_code_dict data))
           (param_id, sort (remdups (observed data column)) ! i) =
         Some (code_record param_id i (sort (remdups (observed data column)) ! i))"
  unfolding codes_get_iff in_code_items
  using make_code_dict_entry(1) [OF assms(1,2), of data] assms(3) by blast

lemma codes_get_marker: "dict_get (make_codes (make_code_dict data)) (''ap-marker'', n) = None"
proof (cases "dict_get (make_codes (make_code_dict data)) (''ap-marker'', n)")
  case None
  then show ?thesis .
next
  case (Some c)
  then obtain ns where "(''ap-marker'', ns) \<in> set (make_code_dict data)"
    unfolding codes_get_iff in_code_items by blast
  from make_code_dict_params [OF this] show ?thesis by simp
qed

lemma parameter_ids:
  "snd ` set PARAMETER_COLUMNS =
     {''ap-marker'', ''marker-type'', ''functions'', ''polysemy'', ''productivity'',
      ''p-obligatoriness'', ''p-definiteness''}"
  by (simp add: PARAMETER_COLUMNS_def)

text \<open>A parameter identifier is determined by its first three characters.\<close>

lemma parameter_take3:
  assumes "p \<in> snd ` set PARAMETER_COLUMNS"
  shows "take 3 (p @ x) = take 3 p"
    and "p = (if take 3 p = ''ap-'' then ''ap-marker''
              else if take 3 p = ''mar'' then ''marker-type''
              else if take 3 p = ''fun'' then ''functions''
              else if take 3 p = ''pol'' then ''polysemy''
              else if take 3 p = ''pro'' then ''productivity''
              else if take 3 p = ''p-o'' then ''p-obligatoriness''
              else ''p-definiteness'')"
  using assms unfolding parameter_ids by (elim insertE emptyE; simp)+

lemma parameter_prefix:
  assumes "p1 \<in> snd ` set PARAMETER_COLUMNS" "p2 \<in> snd ` set PARAMETER_COLUMNS"
      and "p1 @ x = p2 @ y"
  shows "p1 = p2"
proof -
  have "take 3 p1 = take 3 (p1 @ x)" by (rule parameter_take3(1) [OF assms(1), symmetric])
  also have "\<dots> = take 3 (p2 @ y)" by (simp only: assms(3))
  also have "\<dots> = take 3 p2" by (rule parameter_take3(1) [OF assms(2)])
  finally have "take 3 p1 = take 3 p2" .
  with parameter_take3(2) [OF assms(1)] parameter_take3(2) [OF assms(2)]
  show ?thesis by metis
qed

lemma codes_of_parameter:
  "filter (\<lambda>c. code_Parameter_ID c = q) (map snd (code_items cd)) =
     concat (map (\<lambda>(p, ns). if p = q then map (\<lambda>(i, n). code_record p i n) (enumerate 0 ns)
                               else []) cd)"
proof (induction cd)
  case Nil
  then show ?case by (simp add: code_items_Nil)
next
  case (Cons a cd)
  obtain p ns where a: "a = (p, ns)" by (cases a)
  have "filter (\<lambda>c. code_Parameter_ID c = q)
          (map snd (map (\<lambda>(i, n). ((p, n), code_record p i n)) (enumerate 0 ns)))
        = (if p = q then map (\<lambda>(i, n). code_record p i n) (enumerate 0 ns) else [])"
    by (auto simp: filter_map comp_def case_prod_unfold code_record_def filter_empty_conv)
  with Cons.IH show ?case by (simp add: a code_items_Cons)
qed

text \<open>
  C5: for a parameter column other than the marker column, the entry of \<open>code_dict\<close> is the
  list of the distinct unified values of the cells of that column that are not empty,
  sorted; the value at position \<open>i\<close> (from 0) has the code whose identifier is the
  parameter, \<open>-c\<close> and \<open>i + 1\<close> in decimal; the codes of the parameter stand in the code
  table in that order; the code of another parameter differs from it, also in its
  identifier, even for the same value.
\<close>

theorem code_vocabulary:
  fixes data :: "row list" and column param_id :: string
  defines "names \<equiv> sort (remdups (observed data column))"
  defines "codes \<equiv> make_codes (make_code_dict data)"
  assumes col: "(column, param_id) \<in> set PARAMETER_COLUMNS" and par: "param_id \<noteq> ''ap-marker''"
  shows "dict_get (make_code_dict data) param_id = Some names \<and>
         set names =
           {unify_na v | row v. row \<in> set data \<and> dict_get row column = Some v \<and> v \<noteq> []} \<and>
         sorted names \<and> distinct names \<and>
         (\<forall>i < length names.
            dict_get codes (param_id, names ! i) =
              Some \<lparr>code_ID = param_id @ ''-c'' @ string_of_nat (i + 1),
                    code_Parameter_ID = param_id, code_Name = names ! i\<rparr>) \<and>
         filter (\<lambda>c. code_Parameter_ID c = param_id) (map snd codes) =
           map (\<lambda>(i, n). \<lparr>code_ID = param_id @ ''-c'' @ string_of_nat (i + 1),
                           code_Parameter_ID = param_id, code_Name = n\<rparr>)
             (enumerate 0 names) \<and>
         (\<forall>p n n' c c'. p \<noteq> param_id \<and> dict_get codes (param_id, n) = Some c \<and>
            dict_get codes (p, n') = Some c' \<longrightarrow> c \<noteq> c' \<and> code_ID c \<noteq> code_ID c')"
proof -
  have entry: "dict_get (make_code_dict data) param_id = Some names"
    unfolding names_def by (rule make_code_dict_entry(2) [OF col par])
  have vals: "set names =
      {unify_na v | row v. row \<in> set data \<and> dict_get row column = Some v \<and> v \<noteq> []}"
    by (simp add: names_def set_observed)
  have order: "sorted names \<and> distinct names" by (simp add: names_def)
  have ids: "\<forall>i < length names.
      dict_get codes (param_id, names ! i) =
        Some \<lparr>code_ID = param_id @ ''-c'' @ string_of_nat (i + 1),
              code_Parameter_ID = param_id, code_Name = names ! i\<rparr>"
    using codes_get_observed [OF col par, of _ data]
    by (simp add: names_def codes_def code_record_def)
  have "filter (\<lambda>c. code_Parameter_ID c = param_id) (map snd codes) =
      concat (map (\<lambda>(p, ns). if p = param_id
                     then map (\<lambda>(i, n). code_record p i n) (enumerate 0 ns) else [])
                (make_code_dict data))"
    unfolding codes_def codes_eq by (rule codes_of_parameter)
  also have "\<dots> = map (\<lambda>(i, n). code_record param_id i n) (enumerate 0 names)"
    using col par unfolding make_code_dict_eq names_def PARAMETER_COLUMNS_def
    by auto
  finally have table: "filter (\<lambda>c. code_Parameter_ID c = param_id) (map snd codes) =
      map (\<lambda>(i, n). \<lparr>code_ID = param_id @ ''-c'' @ string_of_nat (i + 1),
                      code_Parameter_ID = param_id, code_Name = n\<rparr>) (enumerate 0 names)"
    by (simp add: code_record_def)
  have scoped: "c \<noteq> c' \<and> code_ID c \<noteq> code_ID c'"
    if "p \<noteq> param_id" "dict_get codes (param_id, n) = Some c" "dict_get codes (p, n') = Some c'"
    for p n n' c c'
  proof -
    from that(2) obtain ns i where c: "(param_id, ns) \<in> set (make_code_dict data)"
      "c = code_record param_id i (ns ! i)"
      unfolding codes_def codes_get_iff in_code_items by blast
    from that(3) obtain ns' i' where c': "(p, ns') \<in> set (make_code_dict data)"
      "c' = code_record p i' (ns' ! i')"
      unfolding codes_def codes_get_iff in_code_items by blast
    have "code_ID c \<noteq> code_ID c'"
    proof
      assume "code_ID c = code_ID c'"
      then have "param_id @ ''-c'' @ string_of_nat (i + 1) = p @ ''-c'' @ string_of_nat (i' + 1)"
        by (simp add: c c' code_record_def)
      from parameter_prefix [OF _ _ this] make_code_dict_params [OF c(1)]
        make_code_dict_params [OF c'(1)] that(1)
      show False by blast
    qed
    then show ?thesis by blast
  qed
  from entry vals order ids table scoped show ?thesis by blast
qed

theorem code_vocabulary_witness:
  "(''Polysemy'', ''polysemy'') \<in> set PARAMETER_COLUMNS \<and> ''polysemy'' \<noteq> ''ap-marker'' \<and>
   sort (remdups (observed
     [[(''Polysemy'', ''b''), (''FunctionAP'', ''a'')], [(''Polysemy'', ''a'')],
      [(''Polysemy'', ''c'')], [(''Polysemy'', ''a'')]] ''Polysemy'')) = [''a'', ''b'', ''c''] \<and>
   filter (\<lambda>c. code_Parameter_ID c = ''polysemy'')
     (map snd (make_codes (make_code_dict
        [[(''Polysemy'', ''b''), (''FunctionAP'', ''a'')], [(''Polysemy'', ''a'')],
         [(''Polysemy'', ''c'')], [(''Polysemy'', ''a'')]]))) =
     [\<lparr>code_ID = ''polysemy-c1'', code_Parameter_ID = ''polysemy'', code_Name = ''a''\<rparr>,
      \<lparr>code_ID = ''polysemy-c2'', code_Parameter_ID = ''polysemy'', code_Name = ''b''\<rparr>,
      \<lparr>code_ID = ''polysemy-c3'', code_Parameter_ID = ''polysemy'', code_Name = ''c''\<rparr>] \<and>
   dict_get (make_codes (make_code_dict
        [[(''Polysemy'', ''b''), (''FunctionAP'', ''a'')], [(''Polysemy'', ''a'')],
         [(''Polysemy'', ''c'')], [(''Polysemy'', ''a'')]])) (''functions'', ''a'') =
     Some \<lparr>code_ID = ''functions-c1'', code_Parameter_ID = ''functions'', code_Name = ''a''\<rparr>"
proof -
  let ?data = "[[(''Polysemy'', ''b''), (''FunctionAP'', ''a'')], [(''Polysemy'', ''a'')],
      [(''Polysemy'', ''c'')], [(''Polysemy'', ''a'')]]"
  have col: "(''Polysemy'', ''polysemy'') \<in> set PARAMETER_COLUMNS" by code_simp
  have par: "''polysemy'' \<noteq> ''ap-marker''" by simp
  have names: "sort (remdups (observed ?data ''Polysemy'')) = [''a'', ''b'', ''c'']"
    by code_simp
  have eval: "map (\<lambda>(i, n). \<lparr>code_ID = ''polysemy'' @ ''-c'' @ string_of_nat (i + 1),
                           code_Parameter_ID = ''polysemy'', code_Name = n\<rparr>)
             (enumerate 0 [''a'', ''b'', ''c'']) =
     [\<lparr>code_ID = ''polysemy-c1'', code_Parameter_ID = ''polysemy'', code_Name = ''a''\<rparr>,
      \<lparr>code_ID = ''polysemy-c2'', code_Parameter_ID = ''polysemy'', code_Name = ''b''\<rparr>,
      \<lparr>code_ID = ''polysemy-c3'', code_Parameter_ID = ''polysemy'', code_Name = ''c''\<rparr>]"
    by code_simp
  have other: "dict_get (make_codes (make_code_dict ?data)) (''functions'', ''a'') =
     Some \<lparr>code_ID = ''functions-c1'', code_Parameter_ID = ''functions'', code_Name = ''a''\<rparr>"
    by code_simp
  from code_vocabulary [OF col par, of ?data]
  have "filter (\<lambda>c. code_Parameter_ID c = ''polysemy'')
     (map snd (make_codes (make_code_dict ?data))) =
     map (\<lambda>(i, n). \<lparr>code_ID = ''polysemy'' @ ''-c'' @ string_of_nat (i + 1),
                           code_Parameter_ID = ''polysemy'', code_Name = n\<rparr>)
             (enumerate 0 (sort (remdups (observed ?data ''Polysemy''))))"
    by (elim conjE)
  then have "filter (\<lambda>c. code_Parameter_ID c = ''polysemy'')
     (map snd (make_codes (make_code_dict ?data))) =
     [\<lparr>code_ID = ''polysemy-c1'', code_Parameter_ID = ''polysemy'', code_Name = ''a''\<rparr>,
      \<lparr>code_ID = ''polysemy-c2'', code_Parameter_ID = ''polysemy'', code_Name = ''b''\<rparr>,
      \<lparr>code_ID = ''polysemy-c3'', code_Parameter_ID = ''polysemy'', code_Name = ''c''\<rparr>]"
    unfolding names eval .
  with col par names other show ?thesis by (intro conjI)
qed

section \<open>The loop over the rows\<close>

lemma process_row_Inr:
  assumes "process_row fmt languages codes sm index row st = Inr st'"
  obtains g l nm cites where
    "dict_get row ''Glottolog.Name'' = Some g"
    "dict_get languages (Str g) = Some l"
    "chain_get l ''Name'' = Some nm"
    "constructions st' = constructions st @
       [\<lparr>con_ID = g @ ''-ap'' @ string_of_nat (Suc (dict_get_default (ords st) g 0)),
         con_Name = py_str fmt nm @ '' Antipassive Construction '' @
                    string_of_nat (Suc (dict_get_default (ords st) g 0)),
         con_Language_ID = g, con_Source = cites\<rparr>]"
    "cvalues st' = cvalues st @
       row_cvalues codes (g @ ''-ap'' @ string_of_nat (Suc (dict_get_default (ords st) g 0))) row"
    "\<forall>g'. dict_get_default (ords st') g' 0 =
       (if g' = g then Suc (dict_get_default (ords st) g 0) else dict_get_default (ords st) g' 0)"
proof -
  from assms obtain g where g: "dict_get row ''Glottolog.Name'' = Some g"
    by (auto simp: process_row_def getitem_def split: option.splits)
  from assms g obtain l where l: "dict_get languages (Str g) = Some l"
    by (auto simp: process_row_def getitem_def split: option.splits)
  from assms g l obtain nm where nm: "chain_get l ''Name'' = Some nm"
    by (auto simp: process_row_def getitem_def chain_getitem_def split: option.splits)
  let ?ords = "dict_set (ords st) g (Suc (dict_get_default (ords st) g 0))"
  have ord: "dict_get_default ?ords g' 0 =
      (if g' = g then Suc (dict_get_default (ords st) g 0) else dict_get_default (ords st) g' 0)"
    for g'
    by (simp add: dict_get_default_def dict_get_dict_set)
  from assms g l nm obtain cites pr where
    "st' = \<lparr>constructions = constructions st @
              [\<lparr>con_ID = g @ ''-ap'' @ string_of_nat (dict_get_default ?ords g 0),
                con_Name = py_str fmt nm @ '' Antipassive Construction '' @
                           string_of_nat (dict_get_default ?ords g 0),
                con_Language_ID = g, con_Source = cites\<rparr>],
            cvalues = cvalues st @
              row_cvalues codes (g @ ''-ap'' @ string_of_nat (dict_get_default ?ords g 0)) row,
            ords = ?ords, stderr = stderr st @ pr\<rparr>"
    by (auto simp: process_row_def getitem_def chain_getitem_def Let_def
        split: sum.splits prod.splits)
  then have "constructions st' = constructions st @
       [\<lparr>con_ID = g @ ''-ap'' @ string_of_nat (Suc (dict_get_default (ords st) g 0)),
         con_Name = py_str fmt nm @ '' Antipassive Construction '' @
                    string_of_nat (Suc (dict_get_default (ords st) g 0)),
         con_Language_ID = g, con_Source = cites\<rparr>]"
    "cvalues st' = cvalues st @
       row_cvalues codes (g @ ''-ap'' @ string_of_nat (Suc (dict_get_default (ords st) g 0))) row"
    "ords st' = ?ords"
    by (simp_all add: ord)
  with g l nm ord show thesis by (intro that [of g l nm cites]) simp_all
qed

text \<open>
  The invariant of the loop: the constructions added for the rows, one for each row in
  order, numbered from the counters the loop starts with; and the values added.
\<close>

lemma assemble_Inr:
  assumes "assemble fmt languages codes sm index data st = Inr st'"
  shows "\<exists>cs. constructions st' = constructions st @ cs \<and> length cs = length data \<and>
     cvalues st' = cvalues st @
       concat (map (\<lambda>(c, row). row_cvalues codes (con_ID c) row) (zip cs data)) \<and>
     (\<forall>i < length data. \<exists>g l nm.
        dict_get (data ! i) ''Glottolog.Name'' = Some g \<and>
        dict_get languages (Str g) = Some l \<and> chain_get l ''Name'' = Some nm \<and>
        con_Language_ID (cs ! i) = g \<and>
        con_ID (cs ! i) = g @ ''-ap'' @ string_of_nat (dict_get_default (ords st) g 0 +
          length (filter (\<lambda>r. dict_get r ''Glottolog.Name'' = Some g) (take (Suc i) data))) \<and>
        con_Name (cs ! i) = py_str fmt nm @ '' Antipassive Construction '' @
          string_of_nat (dict_get_default (ords st) g 0 +
          length (filter (\<lambda>r. dict_get r ''Glottolog.Name'' = Some g) (take (Suc i) data)))) \<and>
     (\<forall>g. map con_ID (filter (\<lambda>c. con_Language_ID c = g) cs) =
        map (\<lambda>n. g @ ''-ap'' @ string_of_nat n)
          [Suc (dict_get_default (ords st) g 0) ..<
           Suc (dict_get_default (ords st) g 0 +
             length (filter (\<lambda>r. dict_get r ''Glottolog.Name'' = Some g) data))])"
  using assms
proof (induction data arbitrary: st index)
  case Nil
  then show ?case by simp
next
  case (Cons row data)
  let ?ord = "\<lambda>s g. dict_get_default (ords s) g 0"
  let ?count = "\<lambda>g rs. length (filter (\<lambda>r. dict_get r ''Glottolog.Name'' = Some g) rs)"
  from Cons.prems obtain st1 where
    step: "process_row fmt languages codes sm index row st = Inr st1" and
    rest: "assemble fmt languages codes sm (index + 1) data st1 = Inr st'"
    by (auto split: sum.splits)
  from step obtain g0 l0 nm0 cites where
    g0: "dict_get row ''Glottolog.Name'' = Some g0" and
    l0: "dict_get languages (Str g0) = Some l0" and
    nm0: "chain_get l0 ''Name'' = Some nm0" and
    c0: "constructions st1 = constructions st @
       [\<lparr>con_ID = g0 @ ''-ap'' @ string_of_nat (Suc (?ord st g0)),
         con_Name = py_str fmt nm0 @ '' Antipassive Construction '' @
                    string_of_nat (Suc (?ord st g0)),
         con_Language_ID = g0, con_Source = cites\<rparr>]" and
    v0: "cvalues st1 = cvalues st @
       row_cvalues codes (g0 @ ''-ap'' @ string_of_nat (Suc (?ord st g0))) row" and
    o1': "\<forall>g'. ?ord st1 g' = (if g' = g0 then Suc (?ord st g0) else ?ord st g')"
    by (rule process_row_Inr)
  from o1' have o1: "?ord st1 g' = (if g' = g0 then Suc (?ord st g0) else ?ord st g')" for g'
    by blast
  define c where "c = \<lparr>con_ID = g0 @ ''-ap'' @ string_of_nat (Suc (?ord st g0)),
         con_Name = py_str fmt nm0 @ '' Antipassive Construction '' @
                    string_of_nat (Suc (?ord st g0)),
         con_Language_ID = g0, con_Source = cites\<rparr>"
  have c_sel: "con_ID c = g0 @ ''-ap'' @ string_of_nat (Suc (?ord st g0))"
    "con_Name c = py_str fmt nm0 @ '' Antipassive Construction '' @
                    string_of_nat (Suc (?ord st g0))"
    "con_Language_ID c = g0"
    by (simp_all add: c_def)
  from Cons.IH [OF rest] obtain cs where
    cs: "constructions st' = constructions st1 @ cs" and
    len: "length cs = length data" and
    vs: "cvalues st' = cvalues st1 @
       concat (map (\<lambda>(c, row). row_cvalues codes (con_ID c) row) (zip cs data))" and
    nth: "\<And>i. i < length data \<Longrightarrow> \<exists>g l nm.
        dict_get (data ! i) ''Glottolog.Name'' = Some g \<and>
        dict_get languages (Str g) = Some l \<and> chain_get l ''Name'' = Some nm \<and>
        con_Language_ID (cs ! i) = g \<and>
        con_ID (cs ! i) = g @ ''-ap'' @ string_of_nat (?ord st1 g + ?count g (take (Suc i) data)) \<and>
        con_Name (cs ! i) = py_str fmt nm @ '' Antipassive Construction '' @
          string_of_nat (?ord st1 g + ?count g (take (Suc i) data))" and
    per: "\<And>g. map con_ID (filter (\<lambda>c. con_Language_ID c = g) cs) =
        map (\<lambda>n. g @ ''-ap'' @ string_of_nat n)
          [Suc (?ord st1 g) ..< Suc (?ord st1 g + ?count g data)]"
    by blast
  have shift: "?ord st1 g + ?count g rs = ?ord st g + ?count g (row # rs)" for g rs
    by (simp add: o1 g0)
  have A: "constructions st' = constructions st @ (c # cs)"
    by (simp add: cs c0 c_def)
  have B: "length (c # cs) = length (row # data)" by (simp add: len)
  have C: "cvalues st' = cvalues st @
       concat (map (\<lambda>(c, row). row_cvalues codes (con_ID c) row) (zip (c # cs) (row # data)))"
    by (simp add: vs v0 c_sel)
  have D: "\<exists>g l nm.
        dict_get ((row # data) ! i) ''Glottolog.Name'' = Some g \<and>
        dict_get languages (Str g) = Some l \<and> chain_get l ''Name'' = Some nm \<and>
        con_Language_ID ((c # cs) ! i) = g \<and>
        con_ID ((c # cs) ! i) =
          g @ ''-ap'' @ string_of_nat (?ord st g + ?count g (take (Suc i) (row # data))) \<and>
        con_Name ((c # cs) ! i) = py_str fmt nm @ '' Antipassive Construction '' @
          string_of_nat (?ord st g + ?count g (take (Suc i) (row # data)))"
    if "i < length (row # data)" for i
  proof (cases i)
    case 0
    with g0 l0 nm0 show ?thesis by (simp add: c_sel)
  next
    case (Suc j)
    with that have "j < length data" by simp
    from nth [OF this] show ?thesis
      unfolding shift Suc by simp
  qed
  have E: "map con_ID (filter (\<lambda>c. con_Language_ID c = g) (c # cs)) =
        map (\<lambda>n. g @ ''-ap'' @ string_of_nat n)
          [Suc (?ord st g) ..< Suc (?ord st g + ?count g (row # data))]" for g
  proof (cases "g = g0")
    case True
    have cnt: "?count g0 (row # data) = Suc (?count g0 data)" by (simp add: g0)
    have upt: "[Suc m ..< Suc (m + Suc n)] = Suc m # [Suc (Suc m) ..< Suc (Suc m + n)]"
      for m n :: nat
      by (subst upt_rec) simp
    have "[Suc (?ord st g0) ..< Suc (?ord st g0 + ?count g0 (row # data))] =
            Suc (?ord st g0) # [Suc (?ord st1 g0) ..< Suc (?ord st1 g0 + ?count g0 data)]"
      unfolding cnt o1 by (simp only: upt if_True refl)
    with per [of g0] show ?thesis by (simp add: True c_sel)
  next
    case False
    with per [of g] show ?thesis by (simp add: c_sel o1 g0)
  qed
  from A B C D E show ?case by blast
qed

lemma in_row_cvalues:
  "cv \<in> set (row_cvalues codes cid row) \<longleftrightarrow>
     (\<exists>column param v. (column, param) \<in> set PARAMETER_COLUMNS \<and>
        dict_get row column = Some v \<and> v \<noteq> [] \<and>
        cv = \<lparr>cv_ID = cid @ ''-'' @ param, cv_Construction_ID = cid, cv_Parameter_ID = param,
               cv_Value = unify_na v,
               cv_Code_ID = map_option code_ID (dict_get codes (param, unify_na v))\<rparr>)"
  unfolding row_cvalues_def in_set_map_filter
  by (auto simp: truthy_get_Some split: prod.splits) blast

text \<open>The loop from its initial state, where every counter is 0.\<close>

lemma assemble_init:
  assumes "assemble fmt languages codes sm 0 data
             \<lparr>constructions = [], cvalues = [], ords = [], stderr = []\<rparr> = Inr st"
  shows "length (constructions st) = length data"
    and "cvalues st =
       concat (map (\<lambda>(c, row). row_cvalues codes (con_ID c) row) (zip (constructions st) data))"
    and "\<forall>i < length data. \<exists>g l nm.
        dict_get (data ! i) ''Glottolog.Name'' = Some g \<and>
        dict_get languages (Str g) = Some l \<and> chain_get l ''Name'' = Some nm \<and>
        con_Language_ID (constructions st ! i) = g \<and>
        con_ID (constructions st ! i) = g @ ''-ap'' @ string_of_nat
          (length (filter (\<lambda>r. dict_get r ''Glottolog.Name'' = Some g) (take (Suc i) data))) \<and>
        con_Name (constructions st ! i) = py_str fmt nm @ '' Antipassive Construction '' @
          string_of_nat
            (length (filter (\<lambda>r. dict_get r ''Glottolog.Name'' = Some g) (take (Suc i) data)))"
    and "\<forall>g. map con_ID (filter (\<lambda>c. con_Language_ID c = g) (constructions st)) =
        map (\<lambda>n. g @ ''-ap'' @ string_of_nat n)
          [1 ..< Suc (length (filter (\<lambda>r. dict_get r ''Glottolog.Name'' = Some g) data))]"
proof -
  have zero: "dict_get_default [] g 0 = (0::nat)" for g :: string
    by (simp add: dict_get_default_def dict_get_def)
  from assemble_Inr [OF assms]
  have all: "length (constructions st) = length data \<and>
     cvalues st =
       concat (map (\<lambda>(c, row). row_cvalues codes (con_ID c) row) (zip (constructions st) data)) \<and>
     (\<forall>i < length data. \<exists>g l nm.
        dict_get (data ! i) ''Glottolog.Name'' = Some g \<and>
        dict_get languages (Str g) = Some l \<and> chain_get l ''Name'' = Some nm \<and>
        con_Language_ID (constructions st ! i) = g \<and>
        con_ID (constructions st ! i) = g @ ''-ap'' @ string_of_nat
          (length (filter (\<lambda>r. dict_get r ''Glottolog.Name'' = Some g) (take (Suc i) data))) \<and>
        con_Name (constructions st ! i) = py_str fmt nm @ '' Antipassive Construction '' @
          string_of_nat
            (length (filter (\<lambda>r. dict_get r ''Glottolog.Name'' = Some g) (take (Suc i) data)))) \<and>
     (\<forall>g. map con_ID (filter (\<lambda>c. con_Language_ID c = g) (constructions st)) =
        map (\<lambda>n. g @ ''-ap'' @ string_of_nat n)
          [1 ..< Suc (length (filter (\<lambda>r. dict_get r ''Glottolog.Name'' = Some g) data))])"
    by (simp add: zero)
  from all show "length (constructions st) = length data" by (elim conjE)
  from all show "cvalues st =
       concat (map (\<lambda>(c, row). row_cvalues codes (con_ID c) row) (zip (constructions st) data))"
    by (elim conjE)
  from all show "\<forall>i < length data. \<exists>g l nm.
        dict_get (data ! i) ''Glottolog.Name'' = Some g \<and>
        dict_get languages (Str g) = Some l \<and> chain_get l ''Name'' = Some nm \<and>
        con_Language_ID (constructions st ! i) = g \<and>
        con_ID (constructions st ! i) = g @ ''-ap'' @ string_of_nat
          (length (filter (\<lambda>r. dict_get r ''Glottolog.Name'' = Some g) (take (Suc i) data))) \<and>
        con_Name (constructions st ! i) = py_str fmt nm @ '' Antipassive Construction '' @
          string_of_nat
            (length (filter (\<lambda>r. dict_get r ''Glottolog.Name'' = Some g) (take (Suc i) data)))"
    by (elim conjE)
  from all show "\<forall>g. map con_ID (filter (\<lambda>c. con_Language_ID c = g) (constructions st)) =
        map (\<lambda>n. g @ ''-ap'' @ string_of_nat n)
          [1 ..< Suc (length (filter (\<lambda>r. dict_get r ''Glottolog.Name'' = Some g) data))]"
    by (elim conjE)
qed

text \<open>What a run that returns tables has built in its loop.\<close>

lemma run_loop:
  fixes out :: "'c tables"
  assumes run: "cmd_makecldf fmt catalog raw parameters citation_table = Inr out"
  obtains gs where
    "set gs = {g. \<exists>r \<in> set (normalise_table raw). dict_get r ''Glottolog.Name'' = Some g}"
    "LanguageTable out =
       map (\<lambda>g. language_chainmap g (the (catalog g))
                  (lang_info_entry g
                    (last (filter (\<lambda>r. dict_get r ''Glottolog.Name'' = Some g)
                       (normalise_table raw))))) gs"
    "length (constructions_csv out) = length (normalise_table raw)"
    "cvalues_csv out =
       concat (map (\<lambda>(c, row). row_cvalues (make_codes (make_code_dict (normalise_table raw)))
                                 (con_ID c) row)
                 (zip (constructions_csv out) (normalise_table raw)))"
    "\<forall>i < length (normalise_table raw). \<exists>g l nm.
        dict_get (normalise_table raw ! i) ''Glottolog.Name'' = Some g \<and>
        dict_get (zip (map Str gs) (LanguageTable out)) (Str g :: 'c val) = Some l \<and>
        chain_get l ''Name'' = Some nm \<and>
        con_Language_ID (constructions_csv out ! i) = g \<and>
        con_ID (constructions_csv out ! i) = g @ ''-ap'' @ string_of_nat
          (length (filter (\<lambda>r. dict_get r ''Glottolog.Name'' = Some g)
             (take (Suc i) (normalise_table raw)))) \<and>
        con_Name (constructions_csv out ! i) = py_str fmt nm @ '' Antipassive Construction '' @
          string_of_nat (length (filter (\<lambda>r. dict_get r ''Glottolog.Name'' = Some g)
             (take (Suc i) (normalise_table raw))))"
    "\<forall>g. map con_ID (filter (\<lambda>c. con_Language_ID c = g) (constructions_csv out)) =
        map (\<lambda>n. g @ ''-ap'' @ string_of_nat n)
          [1 ..< Suc (length (filter (\<lambda>r. dict_get r ''Glottolog.Name'' = Some g)
                    (normalise_table raw)))]"
proof -
  from run obtain gs st where gs:
    "set gs = {g. \<exists>r \<in> set (normalise_table raw). dict_get r ''Glottolog.Name'' = Some g}"
    "LanguageTable out =
       map (\<lambda>g. language_chainmap g (the (catalog g))
                  (lang_info_entry g
                    (last (filter (\<lambda>r. dict_get r ''Glottolog.Name'' = Some g)
                       (normalise_table raw))))) gs"
    and loop: "assemble fmt (zip (map Str gs) (LanguageTable out))
       (make_codes (make_code_dict (normalise_table raw)))
       (make_source_map citation_table) 0 (normalise_table raw)
       \<lparr>constructions = [], cvalues = [], ords = [], stderr = []\<rparr> = Inr st"
    and out: "constructions_csv out = constructions st" "cvalues_csv out = cvalues st"
    by (rule run_languages)
  note init = assemble_init [OF loop, folded out]
  show thesis
    by (rule that [of gs]) (rule gs init)+
qed

section \<open>Values and their codes\<close>

text \<open>
  C4: in a run that returns tables, every value record comes from a cell, not empty, of a
  parameter column of a normalised row, and its value is the unified cell; a record of the
  marker parameter has no code reference; a record of any other parameter refers to the
  code of the code table that was generated for its parameter and its value.
\<close>

theorem value_code_linkage:
  fixes raw :: "row list"
  defines "data \<equiv> normalise_table raw"
  defines "codes \<equiv> make_codes (make_code_dict data)"
  assumes run: "cmd_makecldf fmt catalog raw parameters citation_table = Inr out"
      and cv: "cv \<in> set (cvalues_csv out)"
  shows "(\<exists>column row v. (column, cv_Parameter_ID cv) \<in> set PARAMETER_COLUMNS \<and>
            row \<in> set data \<and> dict_get row column = Some v \<and> v \<noteq> [] \<and>
            cv_Value cv = unify_na v) \<and>
         (cv_Parameter_ID cv = ''ap-marker'' \<longrightarrow> cv_Code_ID cv = None) \<and>
         (cv_Parameter_ID cv \<noteq> ''ap-marker'' \<longrightarrow>
            (\<exists>c \<in> set (CodeTable out).
               dict_get codes (cv_Parameter_ID cv, cv_Value cv) = Some c \<and>
               code_Parameter_ID c = cv_Parameter_ID cv \<and> code_Name c = cv_Value cv \<and>
               cv_Code_ID cv = Some (code_ID c)))"
proof -
  from run obtain gs where
    vs: "cvalues_csv out =
       concat (map (\<lambda>(c, row). row_cvalues codes (con_ID c) row)
                 (zip (constructions_csv out) data))"
    unfolding data_def codes_def by (rule run_loop)
  from run have table: "CodeTable out = map snd codes"
    unfolding data_def codes_def by (rule run_languages)
  from cv vs obtain c row where "(c, row) \<in> set (zip (constructions_csv out) data)"
    and "cv \<in> set (row_cvalues codes (con_ID c) row)"
    by auto
  then have row: "row \<in> set data" and "cv \<in> set (row_cvalues codes (con_ID c) row)"
    by (auto dest: set_zip_rightD)
  then obtain column param v where col: "(column, param) \<in> set PARAMETER_COLUMNS"
    and v: "dict_get row column = Some v" "v \<noteq> []"
    and cv_eq: "cv = \<lparr>cv_ID = con_ID c @ ''-'' @ param, cv_Construction_ID = con_ID c,
               cv_Parameter_ID = param, cv_Value = unify_na v,
               cv_Code_ID = map_option code_ID (dict_get codes (param, unify_na v))\<rparr>"
    unfolding in_row_cvalues by blast
  have origin: "\<exists>column row v. (column, cv_Parameter_ID cv) \<in> set PARAMETER_COLUMNS \<and>
            row \<in> set data \<and> dict_get row column = Some v \<and> v \<noteq> [] \<and>
            cv_Value cv = unify_na v"
    using col row v by (auto simp: cv_eq)
  have marker: "cv_Code_ID cv = None" if "cv_Parameter_ID cv = ''ap-marker''"
    using that by (simp add: cv_eq codes_def codes_get_marker)
  have coded: "\<exists>c \<in> set (CodeTable out).
               dict_get codes (cv_Parameter_ID cv, cv_Value cv) = Some c \<and>
               code_Parameter_ID c = cv_Parameter_ID cv \<and> code_Name c = cv_Value cv \<and>
               cv_Code_ID cv = Some (code_ID c)"
    if "cv_Parameter_ID cv \<noteq> ''ap-marker''"
  proof -
    from that have par: "param \<noteq> ''ap-marker''" by (simp add: cv_eq)
    let ?names = "sort (remdups (observed data column))"
    from row v have "unify_na v \<in> set ?names"
      by (auto simp: set_observed)
    then obtain i where i: "i < length ?names" "?names ! i = unify_na v"
      unfolding in_set_conv_nth by blast
    from codes_get_observed [OF col par i(1)] i(2)
    have get: "dict_get codes (param, unify_na v) = Some (code_record param i (unify_na v))"
      by (simp add: codes_def)
    then have "((param, unify_na v), code_record param i (unify_na v)) \<in> set codes"
      by (simp add: dict_get_def map_of_SomeD)
    then have "snd ((param, unify_na v), code_record param i (unify_na v)) \<in> snd ` set codes"
      by (rule imageI)
    then have "code_record param i (unify_na v) \<in> set (CodeTable out)"
      unfolding table by simp
    with get show ?thesis
      by (auto simp: cv_eq code_record_def)
  qed
  from origin marker coded show ?thesis by blast
qed

theorem value_code_linkage_witness:
  "cmd_makecldf string_of_nat example_catalog example_rows [] example_citations =
     Inr (projr (cmd_makecldf string_of_nat example_catalog example_rows [] example_citations)) \<and>
   cvalues_csv
     (projr (cmd_makecldf string_of_nat example_catalog example_rows [] example_citations)) =
     [\<lparr>cv_ID = ''lang1-ap1-ap-marker'', cv_Construction_ID = ''lang1-ap1'',
       cv_Parameter_ID = ''ap-marker'', cv_Value = ''-x'', cv_Code_ID = None\<rparr>,
      \<lparr>cv_ID = ''lang1-ap1-polysemy'', cv_Construction_ID = ''lang1-ap1'',
       cv_Parameter_ID = ''polysemy'', cv_Value = ''b'', cv_Code_ID = Some ''polysemy-c2''\<rparr>,
      \<lparr>cv_ID = ''lang2-ap1-functions'', cv_Construction_ID = ''lang2-ap1'',
       cv_Parameter_ID = ''functions'', cv_Value = ''n/a'', cv_Code_ID = Some ''functions-c2''\<rparr>,
      \<lparr>cv_ID = ''lang2-ap1-polysemy'', cv_Construction_ID = ''lang2-ap1'',
       cv_Parameter_ID = ''polysemy'', cv_Value = ''a'', cv_Code_ID = Some ''polysemy-c1''\<rparr>,
      \<lparr>cv_ID = ''lang1-ap2-functions'', cv_Construction_ID = ''lang1-ap2'',
       cv_Parameter_ID = ''functions'', cv_Value = ''c'', cv_Code_ID = Some ''functions-c1''\<rparr>,
      \<lparr>cv_ID = ''lang1-ap2-polysemy'', cv_Construction_ID = ''lang1-ap2'',
       cv_Parameter_ID = ''polysemy'', cv_Value = ''c'', cv_Code_ID = Some ''polysemy-c3''\<rparr>] \<and>
   (\<exists>c \<in> set (CodeTable
       (projr (cmd_makecldf string_of_nat example_catalog example_rows [] example_citations))).
      code_Parameter_ID c = ''functions'' \<and> code_Name c = ''n/a'' \<and>
      Some ''functions-c2'' = Some (code_ID c))"
proof -
  let ?out = "projr (cmd_makecldf string_of_nat example_catalog example_rows []
                example_citations)"
  let ?cv = "\<lparr>cv_ID = ''lang2-ap1-functions'', cv_Construction_ID = ''lang2-ap1'',
       cv_Parameter_ID = ''functions'', cv_Value = ''n/a'', cv_Code_ID = Some ''functions-c2''\<rparr>"
  have run: "cmd_makecldf string_of_nat example_catalog example_rows [] example_citations =
     Inr ?out" by code_simp
  have vs: "cvalues_csv ?out =
     [\<lparr>cv_ID = ''lang1-ap1-ap-marker'', cv_Construction_ID = ''lang1-ap1'',
       cv_Parameter_ID = ''ap-marker'', cv_Value = ''-x'', cv_Code_ID = None\<rparr>,
      \<lparr>cv_ID = ''lang1-ap1-polysemy'', cv_Construction_ID = ''lang1-ap1'',
       cv_Parameter_ID = ''polysemy'', cv_Value = ''b'', cv_Code_ID = Some ''polysemy-c2''\<rparr>,
      ?cv,
      \<lparr>cv_ID = ''lang2-ap1-polysemy'', cv_Construction_ID = ''lang2-ap1'',
       cv_Parameter_ID = ''polysemy'', cv_Value = ''a'', cv_Code_ID = Some ''polysemy-c1''\<rparr>,
      \<lparr>cv_ID = ''lang1-ap2-functions'', cv_Construction_ID = ''lang1-ap2'',
       cv_Parameter_ID = ''functions'', cv_Value = ''c'', cv_Code_ID = Some ''functions-c1''\<rparr>,
      \<lparr>cv_ID = ''lang1-ap2-polysemy'', cv_Construction_ID = ''lang1-ap2'',
       cv_Parameter_ID = ''polysemy'', cv_Value = ''c'', cv_Code_ID = Some ''polysemy-c3''\<rparr>]"
    by code_simp
  then have cv: "?cv \<in> set (cvalues_csv ?out)" by simp
  from value_code_linkage [OF run cv]
  have "\<exists>c \<in> set (CodeTable ?out).
      code_Parameter_ID c = ''functions'' \<and> code_Name c = ''n/a'' \<and>
      Some ''functions-c2'' = Some (code_ID c)"
    by auto
  with run vs show ?thesis by (intro conjI)
qed

section \<open>Constructions and their numbering\<close>

text \<open>
  C6: a run that returns tables returns one construction for each normalised row, in the
  order of the rows. The construction of row \<open>i\<close> belongs to the identifier \<open>g\<close> of that
  row; its number is the number of rows up to and including row \<open>i\<close> that have the
  identifier \<open>g\<close>; its ID is \<open>g\<close>, \<open>-ap\<close> and that number in decimal; its Name is the
  Name of the language record of \<open>g\<close>, the words Antipassive Construction, and the same
  number. So the constructions of a language with \<open>k\<close> rows have, in the order of the
  rows, the IDs that end in \<open>ap1\<close> to \<open>apk\<close>, wherever the rows of other languages stand.
\<close>

theorem construction_numbering:
  fixes raw :: "row list" and out :: "'c tables"
  defines "data \<equiv> normalise_table raw"
  assumes run: "cmd_makecldf fmt catalog raw parameters citation_table = Inr out"
  shows "length (constructions_csv out) = length data \<and>
    (\<forall>i < length data. \<exists>g l nm.
        dict_get (data ! i) ''Glottolog.Name'' = Some g \<and>
        l \<in> set (LanguageTable out) \<and> chain_get l ''ID'' = Some (Str g) \<and>
        chain_get l ''Name'' = Some nm \<and>
        con_Language_ID (constructions_csv out ! i) = g \<and>
        con_ID (constructions_csv out ! i) = g @ ''-ap'' @ string_of_nat
          (length (filter (\<lambda>r. dict_get r ''Glottolog.Name'' = Some g) (take (Suc i) data))) \<and>
        con_Name (constructions_csv out ! i) = py_str fmt nm @ '' Antipassive Construction '' @
          string_of_nat
            (length (filter (\<lambda>r. dict_get r ''Glottolog.Name'' = Some g) (take (Suc i) data)))) \<and>
    (\<forall>g. map con_ID (filter (\<lambda>c. con_Language_ID c = g) (constructions_csv out)) =
        map (\<lambda>n. g @ ''-ap'' @ string_of_nat n)
          [1 ..< Suc (length (filter (\<lambda>r. dict_get r ''Glottolog.Name'' = Some g) data))])"
proof -
  let ?F = "\<lambda>g. language_chainmap g (the (catalog g))
                  (lang_info_entry g
                    (last (filter (\<lambda>r. dict_get r ''Glottolog.Name'' = Some g) data)))"
  from run obtain gs where
    gs: "set gs = {g. \<exists>r \<in> set data. dict_get r ''Glottolog.Name'' = Some g}" and
    tab: "LanguageTable out = map ?F gs" and
    len: "length (constructions_csv out) = length data" and
    nth: "\<forall>i < length data. \<exists>g l nm.
        dict_get (data ! i) ''Glottolog.Name'' = Some g \<and>
        dict_get (zip (map Str gs) (LanguageTable out)) (Str g :: 'c val) = Some l \<and>
        chain_get l ''Name'' = Some nm \<and>
        con_Language_ID (constructions_csv out ! i) = g \<and>
        con_ID (constructions_csv out ! i) = g @ ''-ap'' @ string_of_nat
          (length (filter (\<lambda>r. dict_get r ''Glottolog.Name'' = Some g) (take (Suc i) data))) \<and>
        con_Name (constructions_csv out ! i) = py_str fmt nm @ '' Antipassive Construction '' @
          string_of_nat
            (length (filter (\<lambda>r. dict_get r ''Glottolog.Name'' = Some g) (take (Suc i) data)))"
    and per: "\<forall>g. map con_ID (filter (\<lambda>c. con_Language_ID c = g) (constructions_csv out)) =
        map (\<lambda>n. g @ ''-ap'' @ string_of_nat n)
          [1 ..< Suc (length (filter (\<lambda>r. dict_get r ''Glottolog.Name'' = Some g) data))]"
    unfolding data_def by (rule run_loop)
  have rec: "l \<in> set (LanguageTable out) \<and> chain_get l ''ID'' = Some (Str g)"
    if "i < length data" "dict_get (data ! i) ''Glottolog.Name'' = Some g"
       "dict_get (zip (map Str gs) (LanguageTable out)) (Str g :: 'c val) = Some l" for i g l
  proof -
    from nth_mem [OF that(1)] that(2) gs have g: "g \<in> set gs" by blast
    have "dict_get (zip (map Str gs) (map ?F gs)) (Str g :: 'c val) = Some (?F g)"
      using g by (rule languages_lookup)
    with that(3) have "l = ?F g" by (simp add: tab)
    with g show ?thesis by (simp add: tab)
  qed
  have "\<exists>g l nm.
        dict_get (data ! i) ''Glottolog.Name'' = Some g \<and>
        l \<in> set (LanguageTable out) \<and> chain_get l ''ID'' = Some (Str g) \<and>
        chain_get l ''Name'' = Some nm \<and>
        con_Language_ID (constructions_csv out ! i) = g \<and>
        con_ID (constructions_csv out ! i) = g @ ''-ap'' @ string_of_nat
          (length (filter (\<lambda>r. dict_get r ''Glottolog.Name'' = Some g) (take (Suc i) data))) \<and>
        con_Name (constructions_csv out ! i) = py_str fmt nm @ '' Antipassive Construction '' @
          string_of_nat
            (length (filter (\<lambda>r. dict_get r ''Glottolog.Name'' = Some g) (take (Suc i) data)))"
    if i: "i < length data" for i
  proof -
    from nth i obtain g l nm where
      a: "dict_get (data ! i) ''Glottolog.Name'' = Some g" and
      b: "dict_get (zip (map Str gs) (LanguageTable out)) (Str g :: 'c val) = Some l" and
      c: "chain_get l ''Name'' = Some nm \<and>
        con_Language_ID (constructions_csv out ! i) = g \<and>
        con_ID (constructions_csv out ! i) = g @ ''-ap'' @ string_of_nat
          (length (filter (\<lambda>r. dict_get r ''Glottolog.Name'' = Some g) (take (Suc i) data))) \<and>
        con_Name (constructions_csv out ! i) = py_str fmt nm @ '' Antipassive Construction '' @
          string_of_nat
            (length (filter (\<lambda>r. dict_get r ''Glottolog.Name'' = Some g) (take (Suc i) data)))"
      by blast
    from rec [OF i a b] a c show ?thesis by blast
  qed
  with len per show ?thesis by blast
qed

theorem construction_numbering_witness:
  "cmd_makecldf string_of_nat example_catalog example_rows [] example_citations =
     Inr (projr (cmd_makecldf string_of_nat example_catalog example_rows [] example_citations)) \<and>
   length (constructions_csv
     (projr (cmd_makecldf string_of_nat example_catalog example_rows [] example_citations))) = 3 \<and>
   map con_ID (filter (\<lambda>c. con_Language_ID c = ''lang1'') (constructions_csv
     (projr (cmd_makecldf string_of_nat example_catalog example_rows [] example_citations))))
     = [''lang1-ap1'', ''lang1-ap2''] \<and>
   constructions_csv
     (projr (cmd_makecldf string_of_nat example_catalog example_rows [] example_citations)) =
     [\<lparr>con_ID = ''lang1-ap1'', con_Name = ''Bar Antipassive Construction 1'',
       con_Language_ID = ''lang1'', con_Source = [''k1'']\<rparr>,
      \<lparr>con_ID = ''lang2-ap1'', con_Name = ''Lang Two Antipassive Construction 1'',
       con_Language_ID = ''lang2'', con_Source = []\<rparr>,
      \<lparr>con_ID = ''lang1-ap2'', con_Name = ''Bar Antipassive Construction 2'',
       con_Language_ID = ''lang1'', con_Source = []\<rparr>]"
proof -
  let ?out = "projr (cmd_makecldf string_of_nat example_catalog example_rows []
                example_citations)"
  have run: "cmd_makecldf string_of_nat example_catalog example_rows [] example_citations =
     Inr ?out" by code_simp
  have rows: "length (normalise_table example_rows) = 3" by code_simp
  have count: "map (\<lambda>n. ''lang1'' @ ''-ap'' @ string_of_nat n)
      [1 ..< Suc (length (filter (\<lambda>r. dict_get r ''Glottolog.Name'' = Some ''lang1'')
         (normalise_table example_rows)))] = [''lang1-ap1'', ''lang1-ap2'']" by code_simp
  have all: "constructions_csv ?out =
     [\<lparr>con_ID = ''lang1-ap1'', con_Name = ''Bar Antipassive Construction 1'',
       con_Language_ID = ''lang1'', con_Source = [''k1'']\<rparr>,
      \<lparr>con_ID = ''lang2-ap1'', con_Name = ''Lang Two Antipassive Construction 1'',
       con_Language_ID = ''lang2'', con_Source = []\<rparr>,
      \<lparr>con_ID = ''lang1-ap2'', con_Name = ''Bar Antipassive Construction 2'',
       con_Language_ID = ''lang1'', con_Source = []\<rparr>]" by code_simp
  note num = construction_numbering [OF run]
  from num have "length (constructions_csv ?out) = 3" unfolding rows by (elim conjE)
  moreover from num have "map con_ID (filter (\<lambda>c. con_Language_ID c = ''lang1'')
      (constructions_csv ?out)) = [''lang1-ap1'', ''lang1-ap2'']"
    unfolding count [symmetric] by blast
  ultimately show ?thesis using run all by (intro conjI)
qed

end
